theory Spec2Isabelle
  imports Complex_Main "HOL-Library.Word"
begin

section \<open>JavaScript strings\<close>

text \<open>
  A JavaScript string is a sequence of UTF-16 code units. Literals of the script are
  written \<open>str ''...''\<close>.
\<close>

type_synonym code_unit = "16 word"
type_synonym jsstring = "code_unit list"

definition str :: "string \<Rightarrow> jsstring" where
  "str s = map of_char s"

text \<open>
  The code units that \<^verbatim>\<open>String.prototype.trim\<close> and \<^verbatim>\<open>parseFloat\<close> strip: ECMAScript's
  WhiteSpace (TAB, VT, FF, ZWNBSP and the Unicode space separators) and LineTerminator
  (LF, CR, LS, PS).
\<close>

definition isWhiteSpace :: "code_unit \<Rightarrow> bool" where
  "isWhiteSpace c \<longleftrightarrow> c \<in> set [0x0009, 0x000A, 0x000B, 0x000C, 0x000D, 0x0020, 0x00A0,
     0x1680, 0x2000, 0x2001, 0x2002, 0x2003, 0x2004, 0x2005, 0x2006, 0x2007, 0x2008,
     0x2009, 0x200A, 0x2028, 0x2029, 0x202F, 0x205F, 0x3000, 0xFEFF]"

definition trimStart :: "jsstring \<Rightarrow> jsstring" where
  "trimStart s = dropWhile isWhiteSpace s"

definition trim :: "jsstring \<Rightarrow> jsstring" where
  "trim s = rev (dropWhile isWhiteSpace (rev (trimStart s)))"

text \<open>Substring containment, as the attribute selector \<^verbatim>\<open>[action*="delete"]\<close> tests it.\<close>

fun contains_str :: "jsstring \<Rightarrow> jsstring \<Rightarrow> bool" where
  "contains_str [] sub = (sub = [])"
| "contains_str (c # cs) sub = (take (length sub) (c # cs) = sub \<or> contains_str cs sub)"

section \<open>JavaScript numbers\<close>

text \<open>
  A Number is an IEEE 754 binary64 value: \<open>NaN\<close>, an infinity with its sign, or a finite
  value with its sign (\<open>True\<close> is negative) and its magnitude, a rational that a double
  represents. The two zeros are \<open>Finite False 0\<close> and \<open>Finite True 0\<close>.
\<close>

datatype number = NaN | Infinity bool | Finite bool rat

definition pow2 :: "int \<Rightarrow> rat" where
  "pow2 e = (if 0 \<le> e then 2 ^ nat e else 1 / 2 ^ nat (- e))"

definition pow10 :: "int \<Rightarrow> rat" where
  "pow10 e = (if 0 \<le> e then 10 ^ nat e else 1 / 10 ^ nat (- e))"

text \<open>
  The exponent of the binade of \<open>m\<close>: the largest \<open>e\<close> from \<open>lo\<close> up to, and without,
  \<open>hi\<close> with \<open>2 ^ e \<le> m\<close>, and \<open>lo\<close> when there is none (the subnormal range), found by
  bisection.
\<close>

function binade :: "rat \<Rightarrow> int \<Rightarrow> int \<Rightarrow> int" where
  "binade m lo hi =
     (if hi \<le> lo + 1 then lo
      else (let mid = (lo + hi) div 2
            in if pow2 mid \<le> m then binade m mid hi else binade m lo mid))"
  by pat_completeness auto
termination
  by (relation "measure (\<lambda>(m, lo, hi). nat (hi - lo))") auto

definition round_half_even :: "rat \<Rightarrow> int" where
  "round_half_even x =
     (let f = \<lfloor>x\<rfloor>; r = x - of_int f
      in if r < 1 / 2 then f
         else if 1 / 2 < r then f + 1
         else if even f then f else f + 1)"

text \<open>
  Rounding of a magnitude to the nearest double, ties to even: 53 significant bits in the
  normal range, multiples of \<open>2 ^ - 1074\<close> below it, infinity from \<open>2 ^ 1024\<close> on.
\<close>

definition to_double :: "bool \<Rightarrow> rat \<Rightarrow> number" where
  "to_double s m =
     (let e = binade m (- 1022) 1024;
          q = pow2 (e - 52);
          r = of_int (round_half_even (m / q)) * q
      in if pow2 1024 \<le> r then Infinity s else Finite s r)"

definition with_sign :: "bool \<Rightarrow> rat \<Rightarrow> rat" where
  "with_sign s m = (if s then - m else m)"

fun num_neg :: "number \<Rightarrow> number" where
  "num_neg NaN = NaN"
| "num_neg (Infinity s) = Infinity (\<not> s)"
| "num_neg (Finite s m) = Finite (\<not> s) m"

fun num_add :: "number \<Rightarrow> number \<Rightarrow> number" where
  "num_add NaN y = NaN"
| "num_add x NaN = NaN"
| "num_add (Infinity s) (Infinity t) = (if s = t then Infinity s else NaN)"
| "num_add (Infinity s) (Finite t n) = Infinity s"
| "num_add (Finite s m) (Infinity t) = Infinity t"
| "num_add (Finite s m) (Finite t n) =
     (let v = with_sign s m + with_sign t n
      in if v = 0 then Finite (s \<and> t) 0 else to_double (v < 0) \<bar>v\<bar>)"

definition num_sub :: "number \<Rightarrow> number \<Rightarrow> number" where
  "num_sub x y = num_add x (num_neg y)"

fun num_mul :: "number \<Rightarrow> number \<Rightarrow> number" where
  "num_mul NaN y = NaN"
| "num_mul x NaN = NaN"
| "num_mul (Infinity s) (Infinity t) = Infinity (s \<noteq> t)"
| "num_mul (Infinity s) (Finite t n) = (if n = 0 then NaN else Infinity (s \<noteq> t))"
| "num_mul (Finite s m) (Infinity t) = (if m = 0 then NaN else Infinity (s \<noteq> t))"
| "num_mul (Finite s m) (Finite t n) = to_double (s \<noteq> t) (m * n)"

fun num_div :: "number \<Rightarrow> number \<Rightarrow> number" where
  "num_div NaN y = NaN"
| "num_div x NaN = NaN"
| "num_div (Infinity s) (Infinity t) = NaN"
| "num_div (Infinity s) (Finite t n) = Infinity (s \<noteq> t)"
| "num_div (Finite s m) (Infinity t) = Finite (s \<noteq> t) 0"
| "num_div (Finite s m) (Finite t n) =
     (if n = 0 then (if m = 0 then NaN else Infinity (s \<noteq> t))
      else to_double (s \<noteq> t) (m / n))"

text \<open>\<^verbatim>\<open>x || y\<close> on numbers: \<open>NaN\<close> and the zeros are falsy.\<close>

fun truthy :: "number \<Rightarrow> bool" where
  "truthy NaN = False"
| "truthy (Infinity s) = True"
| "truthy (Finite s m) = (m \<noteq> 0)"

definition or_else :: "number \<Rightarrow> number \<Rightarrow> number" where
  "or_else x y = (if truthy x then x else y)"

subsection \<open>parseFloat\<close>

text \<open>
  \<^verbatim>\<open>parseFloat\<close> strips leading white space and reads the longest prefix that is a
  StrDecimalLiteral: a sign, then \<^verbatim>\<open>Infinity\<close> or decimal digits with an optional
  fraction and an optional exponent. With no such prefix the result is \<open>NaN\<close>. The
  mathematical value of the literal is rounded to the nearest double, also for a literal
  of more than 20 significant digits, as the engines do.
\<close>

definition isDigit :: "code_unit \<Rightarrow> bool" where
  "isDigit c \<longleftrightarrow> 0x30 \<le> c \<and> c \<le> 0x39"

definition digits_value :: "jsstring \<Rightarrow> nat" where
  "digits_value ds = foldl (\<lambda>n c. 10 * n + (unat c - 48)) 0 ds"

definition split_sign :: "jsstring \<Rightarrow> bool \<times> jsstring" where
  "split_sign s =
     (case s of
        [] \<Rightarrow> (False, [])
      | c # r \<Rightarrow> if c = 0x2B then (False, r) else if c = 0x2D then (True, r) else (False, s))"

definition exponent_part :: "jsstring \<Rightarrow> int" where
  "exponent_part s =
     (case s of
        [] \<Rightarrow> 0
      | c # r \<Rightarrow>
          if c = 0x65 \<or> c = 0x45
          then (let (neg, r') = split_sign r; ds = takeWhile isDigit r'
                in if ds = [] then 0
                   else if neg then - int (digits_value ds) else int (digits_value ds))
          else 0)"

definition parseFloat :: "jsstring \<Rightarrow> number" where
  "parseFloat s =
     (let (neg, u) = split_sign (trimStart s)
      in if take 8 u = str ''Infinity'' then Infinity neg
         else (let ip = takeWhile isDigit u;
                   r1 = dropWhile isDigit u;
                   (fp, r2) = (case r1 of
                                 [] \<Rightarrow> ([], [])
                               | c # r \<Rightarrow> if c = 0x2E
                                          then (takeWhile isDigit r, dropWhile isDigit r)
                                          else ([], r1))
               in if ip = [] \<and> fp = [] then NaN
                  else to_double neg
                         (of_nat (digits_value (ip @ fp)) *
                          pow10 (exponent_part r2 - int (length fp)))))"

subsection \<open>toFixed\<close>

text \<open>The code unit of a decimal digit, and the decimal representation of an integer.\<close>

definition digit :: "nat \<Rightarrow> code_unit" where
  "digit d = of_nat (48 + d)"

function dec_digits :: "nat \<Rightarrow> jsstring" where
  "dec_digits n =
     (if n < 10 then [digit n]
      else dec_digits (n div 10) @ [digit (n mod 10)])"
  by pat_completeness auto
termination
  by (relation "measure id") auto

text \<open>
  \<^verbatim>\<open>Number::toString\<close> for a finite \<open>x\<close> from \<open>10 ^ 21\<close> on (an integer): the decimal
  with the fewest significant digits \<open>k\<close> that rounds to \<open>x\<close>, the one nearest to \<open>x\<close> when
  there are two, written in exponent notation. \<open>d\<close> is the number of digits of \<open>x\<close>.
\<close>

function shortest :: "nat \<Rightarrow> nat \<Rightarrow> nat \<Rightarrow> nat" where
  "shortest x d k =
     (if d \<le> k then x
      else (let u = 10 ^ (d - k);
                lo = (x div u) * u;
                hi = lo + u;
                ok_lo = (to_double False (of_nat lo) = Finite False (of_nat x));
                ok_hi = (to_double False (of_nat hi) = Finite False (of_nat x))
            in if ok_lo \<and> ok_hi
               then (if x - lo < hi - x then lo
                     else if hi - x < x - lo then hi
                     else if even (lo div u) then lo else hi)
               else if ok_lo then lo
               else if ok_hi then hi
               else shortest x d (Suc k)))"
  by pat_completeness auto
termination
  by (relation "measure (\<lambda>(x, d, k). d - k)") auto

definition exponential :: "nat \<Rightarrow> jsstring" where
  "exponential x =
     (let v = shortest x (length (dec_digits x)) 1;
          ds = dec_digits v;
          sig = rev (dropWhile (\<lambda>c. c = 0x30) (rev ds));
          e = dec_digits (length ds - 1)
      in if length sig = 1 then sig @ str ''e+'' @ e
         else take 1 sig @ str ''.'' @ drop 1 sig @ str ''e+'' @ e)"

datatype js_error = RangeError

text \<open>
  \<^verbatim>\<open>Number.prototype.toFixed(f)\<close>: a RangeError for more than 100 digits; the name of a
  value that is not finite; exponent notation from \<open>10 ^ 21\<close> on; else the integer \<open>n\<close>
  with \<open>n / 10 ^ f\<close> nearest to the value (the larger of two), written with \<open>f\<close> digits
  after the point.
\<close>

definition toFixed :: "nat \<Rightarrow> number \<Rightarrow> js_error + jsstring" where
  "toFixed f x =
     (if 100 < f then Inl RangeError
      else Inr (case x of
             NaN \<Rightarrow> str ''NaN''
           | Infinity s \<Rightarrow> (if s then str ''-Infinity'' else str ''Infinity'')
           | Finite s m \<Rightarrow>
               (let sgn = (if s \<and> m \<noteq> 0 then str ''-'' else [])
                in if 10 ^ 21 \<le> m then sgn @ exponential (nat \<lfloor>m\<rfloor>)
                   else (let n = nat \<lfloor>m * 10 ^ f + 1 / 2\<rfloor>;
                             ds = dec_digits n;
                             ms = replicate (f + 1 - length ds) 0x30 @ ds;
                             k = length ms
                         in if f \<noteq> 0
                            then sgn @ take (k - f) ms @ str ''.'' @ drop (k - f) ms
                            else sgn @ ms))))"

section \<open>The page\<close>

text \<open>
  The part of the document the script reads and writes. Elements are identified by
  their position in the list that holds them.
  \<^item> \<open>price_in\<close>, \<open>discount_in\<close>: the value of the first \<^verbatim>\<open>input[name="price"]\<close> and
    \<^verbatim>\<open>input[name="discount"]\<close>, \<open>None\<close> when the page has no such input;
    \<open>final_price\<close>: the value of \<^verbatim>\<open>#final_price\<close>.
  \<^item> \<open>img_src\<close>: the \<^verbatim>\<open>src\<close> attribute of every \<^verbatim>\<open>img\<close> element; a file input names
    its sibling images by their positions in that list.
  \<^item> \<open>readers\<close>: the \<^verbatim>\<open>FileReader\<close>s whose read is in flight, each with the file it reads
    and the jQuery set \<^verbatim>\<open>preview\<close> that its \<^verbatim>\<open>onload\<close> closure captured.
  \<^item> \<open>alerts\<close>: the elements matching \<^verbatim>\<open>.alert\<close>, in document order, each with its
    \<^verbatim>\<open>.text()\<close> and its class list; \<open>closing\<close>: the toolkit's \<^verbatim>\<open>close\<close> has been called
    on the alerts that are still in the page, which wait for their fade transition to end.
  \<^item> \<open>toasts\<close>: the toast containers appended to \<^verbatim>\<open>body\<close> by \<^verbatim>\<open>showToast\<close>, each
    with the message and the type interpolated into its markup.
  \<^item> \<open>timers\<close>: the pending \<^verbatim>\<open>setTimeout\<close> callbacks with the time (in ms on \<open>clock\<close>)
    at which they are due.
  \<^item> \<open>installed\<close>: the \<^verbatim>\<open>$(document).ready\<close> callback has run, so the handlers are bound.
\<close>

record alert_el =
  alert_text :: jsstring
  alert_classes :: "jsstring list"

record toast =
  toast_message :: jsstring
  toast_type :: jsstring

record jsfile =
  file_encoded :: jsstring

record file_input =
  sibling_imgs :: "nat list"

record reader =
  reader_file :: jsfile
  reader_preview :: "nat list"

record form_el =
  form_action :: "jsstring option"

datatype callback = CloseAlerts

record page =
  installed :: bool
  price_in :: "jsstring option"
  discount_in :: "jsstring option"
  final_price :: "jsstring option"
  img_src :: "jsstring option list"
  file_inputs :: "file_input list"
  readers :: "reader list"
  forms :: "form_el list"
  alerts :: "alert_el list"
  toasts :: "toast list"
  clock :: nat
  timers :: "(nat \<times> callback) list"
  closing :: bool

section \<open>Price calculator\<close>

text \<open>
  \<^verbatim>\<open>$(sel).val()\<close> is \<^verbatim>\<open>undefined\<close> when no element matches, and \<^verbatim>\<open>parseFloat\<close> converts
  its argument to a string first.
\<close>

definition val_string :: "jsstring option \<Rightarrow> jsstring" where
  "val_string v = (case v of None \<Rightarrow> str ''undefined'' | Some s \<Rightarrow> s)"

text \<open>The three \<^verbatim>\<open>const\<close> lines of the \<^verbatim>\<open>input\<close> handler.\<close>

definition finalPrice :: "jsstring option \<Rightarrow> jsstring option \<Rightarrow> number" where
  "finalPrice pv dv =
     (let price = or_else (parseFloat (val_string pv)) (Finite False 0);
          discount = or_else (parseFloat (val_string dv)) (Finite False 0)
      in num_sub price (num_div (num_mul price discount) (Finite False 100)))"

text \<open>
  The handler: \<^verbatim>\<open>$('#final_price').val(finalPrice.toFixed(2))\<close>. An exception of
  \<^verbatim>\<open>toFixed\<close> would leave the handler before the write.
\<close>

definition on_input :: "page \<Rightarrow> js_error + page" where
  "on_input p =
     (case toFixed 2 (finalPrice (price_in p) (discount_in p)) of
        Inl e \<Rightarrow> Inl e
      | Inr t \<Rightarrow> Inr (p\<lparr>final_price := (case final_price p of None \<Rightarrow> None | Some old \<Rightarrow> Some t)\<rparr>))"

section \<open>Toast notifications\<close>

text \<open>
  \<^verbatim>\<open>function showToast(message, type = 'success')\<close>: the container built from the
  template is appended to \<^verbatim>\<open>body\<close> and shown. A missing second argument is \<open>None\<close>.
  A toast is kept as the two strings that the template interpolates; \<open>toast_markup\<close>
  below is the markup that the element is built from.
\<close>

definition showToast :: "jsstring \<Rightarrow> jsstring option \<Rightarrow> page \<Rightarrow> page" where
  "showToast message ty p =
     p\<lparr>toasts := toasts p @
       [\<lparr>toast_message = message,
         toast_type = (case ty of None \<Rightarrow> str ''success'' | Some t \<Rightarrow> t)\<rparr>]\<rparr>"

text \<open>
  The template literal of \<^verbatim>\<open>showToast\<close>, line by line: a line break, the indentation, the
  text of the line. The message and the type are interpolated as they are, without
  escaping, and jQuery parses the result as HTML.
\<close>

definition template_line :: "nat \<Rightarrow> jsstring \<Rightarrow> jsstring" where
  "template_line n s = 0x0A # replicate n 0x20 @ s"

definition toast_markup :: "toast \<Rightarrow> jsstring" where
  "toast_markup t =
     template_line 12
       (str ''<div class=\"position-fixed bottom-0 end-0 p-3\" style=\"z-index: 11\">'') @
     template_line 16
       (str ''<div class=\"toast align-items-center text-white bg-'' @ toast_type t @
        str '' border-0\" role=\"alert\">'') @
     template_line 20 (str ''<div class=\"d-flex\">'') @
     template_line 24 (str ''<div class=\"toast-body\">'') @
     template_line 28 (toast_message t) @
     template_line 24 (str ''</div>'') @
     template_line 24
       (str ''<button type=\"button\" class=\"btn-close btn-close-white me-2 m-auto\" data-bs-dismiss=\"toast\"></button>'') @
     template_line 20 (str ''</div>'') @
     template_line 16 (str ''</div>'') @
     template_line 12 (str ''</div>'') @
     template_line 8 []"

text \<open>
  The text of markup that is made of tags and character data only: the character data,
  which is what stands outside the tags. This is how the HTML parser reads markup that
  has no character reference (\<^verbatim>\<open>&\<close>), no \<^verbatim>\<open><\<close> other than at the start of a tag, no
  \<^verbatim>\<open>>\<close> inside a tag, and no CR or NUL, which the parser rewrites. \<open>markup_free\<close> says
  of a text that, interpolated as character data, it keeps markup within these bounds.
\<close>

fun text_content :: "bool \<Rightarrow> jsstring \<Rightarrow> jsstring" where
  "text_content in_tag [] = []"
| "text_content in_tag (c # cs) =
     (if in_tag then (if c = 0x3E then text_content False cs else text_content True cs)
      else (if c = 0x3C then text_content True cs else c # text_content False cs))"


text \<open>What \<^verbatim>\<open>.text().trim()\<close> reads from the toast: the message that it shows.\<close>

definition toast_text :: "toast \<Rightarrow> jsstring" where
  "toast_text t = trim (text_content False (toast_markup t))"

text \<open>
  The handler of \<^verbatim>\<open>hidden.bs.toast\<close> that \<^verbatim>\<open>showToast\<close> binds on the toast it made:
  \<^verbatim>\<open>$(this).closest('.position-fixed').remove()\<close> takes the toast's container out of the
  page. \<open>k\<close> is the position of the toast whose hide transition completed.
\<close>

definition on_hidden :: "nat \<Rightarrow> page \<Rightarrow> page" where
  "on_hidden k p =
     (if k < length (toasts p)
      then p\<lparr>toasts := take k (toasts p) @ drop (Suc k) (toasts p)\<rparr>
      else p)"

subsection \<open>Flash messages to toasts\<close>

definition hasClass :: "alert_el \<Rightarrow> jsstring \<Rightarrow> bool" where
  "hasClass a c \<longleftrightarrow> c \<in> set (alert_classes a)"

definition alert_type :: "alert_el \<Rightarrow> jsstring" where
  "alert_type a =
     (if hasClass a (str ''alert-success'') then str ''success''
      else if hasClass a (str ''alert-danger'') then str ''danger''
      else if hasClass a (str ''alert-warning'') then str ''warning''
      else if hasClass a (str ''alert-info'') then str ''info''
      else str ''success'')"

text \<open>The body of \<^verbatim>\<open>$('.alert').each(...)\<close> for one alert; a string is truthy when it is not empty.\<close>

definition flash_to_toast :: "alert_el \<Rightarrow> page \<Rightarrow> page" where
  "flash_to_toast a p =
     (let message = trim (alert_text a);
          ty = alert_type a
      in if message \<noteq> [] then showToast message (Some ty) p else p)"

section \<open>Timers\<close>

definition setTimeout :: "callback \<Rightarrow> nat \<Rightarrow> page \<Rightarrow> page" where
  "setTimeout cb delay p = p\<lparr>timers := timers p @ [(clock p + delay, cb)]\<rparr>"

definition removeClass :: "jsstring \<Rightarrow> alert_el \<Rightarrow> alert_el" where
  "removeClass c a = a\<lparr>alert_classes := filter (\<lambda>x. x \<noteq> c) (alert_classes a)\<rparr>"

text \<open>
  \<^verbatim>\<open>$('.alert').alert('close')\<close>: the toolkit's \<^verbatim>\<open>close\<close> runs on every element that
  matches \<^verbatim>\<open>.alert\<close> when the callback runs. It takes the class \<^verbatim>\<open>show\<close> off the
  element; an element without the class \<^verbatim>\<open>fade\<close> is removed from the document at once,
  an element with it stays until its transition has ended.
\<close>

fun run_callback :: "callback \<Rightarrow> page \<Rightarrow> page" where
  "run_callback CloseAlerts p =
     p\<lparr>alerts := map (removeClass (str ''show''))
                    (filter (\<lambda>a. hasClass a (str ''fade'')) (alerts p)),
       closing := True\<rparr>"

text \<open>
  The fade transition of the closing alert at position \<open>k\<close> has ended (or the toolkit's
  fallback timeout for it has fired): the toolkit removes the element.
\<close>

definition on_faded :: "nat \<Rightarrow> page \<Rightarrow> page" where
  "on_faded k p =
     (if closing p \<and> k < length (alerts p)
      then p\<lparr>alerts := take k (alerts p) @ drop (Suc k) (alerts p)\<rparr>
      else p)"

text \<open>The alerts have been closed: the ones still in the page are fading out.\<close>

definition faded_out :: "page \<Rightarrow> bool" where
  "faded_out p \<longleftrightarrow>
     closing p \<and> (\<forall>a\<in>set (alerts p). hasClass a (str ''fade'') \<and> \<not> hasClass a (str ''show''))"

definition is_due :: "nat \<Rightarrow> nat \<times> callback \<Rightarrow> bool" where
  "is_due now t \<longleftrightarrow> fst t \<le> now"

text \<open>\<open>d\<close> milliseconds pass: the timers that are due run and leave the queue.\<close>

definition elapse :: "nat \<Rightarrow> page \<Rightarrow> page" where
  "elapse d p =
     (let now = clock p + d;
          due = filter (is_due now) (timers p);
          rest = filter (\<lambda>t. \<not> is_due now t) (timers p)
      in fold (\<lambda>t. run_callback (snd t)) due (p\<lparr>clock := now, timers := rest\<rparr>))"

section \<open>Image preview\<close>

text \<open>
  The result of \<^verbatim>\<open>FileReader.readAsDataURL\<close>: a data URL, \<^verbatim>\<open>data:\<close> followed by the
  media type and the base64 payload that the browser computes from the file
  (\<open>file_encoded\<close>).
\<close>

definition readAsDataURL_result :: "jsfile \<Rightarrow> jsstring" where
  "readAsDataURL_result f = str ''data:'' @ file_encoded f"

text \<open>
  The \<^verbatim>\<open>change\<close> handler on file input \<open>k\<close>; \<open>files\<close> is \<^verbatim>\<open>e.target.files\<close>.
\<close>

definition on_change :: "nat \<Rightarrow> jsfile list \<Rightarrow> page \<Rightarrow> page" where
  "on_change k files p =
     (if k < length (file_inputs p)
      then (let preview = sibling_imgs (file_inputs p ! k)
            in if preview \<noteq> [] \<and> files \<noteq> []
               then p\<lparr>readers := readers p @
                      [\<lparr>reader_file = hd files, reader_preview = preview\<rparr>]\<rparr>
               else p)
      else p)"

text \<open>\<^verbatim>\<open>preview.attr('src', e.target.result)\<close> sets the attribute on every element of the set.\<close>

definition set_src :: "jsstring \<Rightarrow> nat list \<Rightarrow> jsstring option list \<Rightarrow> jsstring option list" where
  "set_src url preview srcs = fold (\<lambda>i s. s[i := Some url]) preview srcs"

text \<open>The read of the reader at position \<open>j\<close> completes and its \<^verbatim>\<open>onload\<close> runs.\<close>

definition on_load :: "nat \<Rightarrow> page \<Rightarrow> page" where
  "on_load j p =
     (if j < length (readers p)
      then (let r = readers p ! j
            in p\<lparr>img_src := set_src (readAsDataURL_result (reader_file r)) (reader_preview r) (img_src p),
                 readers := take j (readers p) @ drop (Suc j) (readers p)\<rparr>)
      else p)"

text \<open>The read fails: no \<^verbatim>\<open>onerror\<close> is set, the reader is dropped.\<close>

definition on_read_error :: "nat \<Rightarrow> page \<Rightarrow> page" where
  "on_read_error j p =
     (if j < length (readers p)
      then p\<lparr>readers := take j (readers p) @ drop (Suc j) (readers p)\<rparr>
      else p)"

section \<open>Page ready\<close>

text \<open>
  The callback of \<^verbatim>\<open>$(document).ready\<close>: it binds the handlers, walks the alerts that
  are in the page and schedules the auto-dismissal.
\<close>

definition ready :: "page \<Rightarrow> page" where
  "ready p =
     setTimeout CloseAlerts 5000 (fold flash_to_toast (alerts p) (p\<lparr>installed := True\<rparr>))"

section \<open>Delete confirmation\<close>

definition confirm_message :: jsstring where
  "confirm_message = str ''Are you sure you want to delete this item? This action cannot be undone.''"

text \<open>The selector \<^verbatim>\<open>form[action*="delete"]\<close>.\<close>

definition delete_selector :: "form_el \<Rightarrow> bool" where
  "delete_selector f =
     (case form_action f of None \<Rightarrow> False | Some a \<Rightarrow> contains_str a (str ''delete''))"

text \<open>
  The \<^verbatim>\<open>submit\<close> handler; \<open>answer\<close> is what the user answers to \<^verbatim>\<open>confirm\<close>. It yields
  the dialogs it showed and whether it called \<^verbatim>\<open>e.preventDefault()\<close>.
\<close>

definition on_submit :: "bool \<Rightarrow> jsstring list \<times> bool" where
  "on_submit answer = ([confirm_message], \<not> answer)"

datatype submission = Submitted | Cancelled

text \<open>
  A \<^verbatim>\<open>submit\<close> event on form \<open>f\<close>: the handler runs when it was bound on \<open>f\<close>, and the
  browser submits the form unless the default was prevented. The result is the dialogs
  shown, what became of the submission, and the page.
\<close>

definition submit_form :: "bool \<Rightarrow> form_el \<Rightarrow> page \<Rightarrow> jsstring list \<times> submission \<times> page" where
  "submit_form answer f p =
     (if installed p \<and> f \<in> set (forms p) \<and> delete_selector f
      then (let (dialogs, prevented) = on_submit answer
            in (dialogs, if prevented then Cancelled else Submitted, p))
      else ([], Submitted, p))"

section \<open>Events\<close>

text \<open>
  What happens to a page that stays open: the user edits the price or the discount field,
  the user picks files in file input \<open>k\<close>, the read of reader \<open>j\<close> completes or fails,
  the hide transition of toast \<open>k\<close> completes, the fade transition of alert \<open>k\<close> ends,
  \<open>d\<close> milliseconds pass.
\<close>

datatype field = Price | Discount

datatype event =
    Input field jsstring
  | Change nat "jsfile list"
  | Load nat
  | ReadError nat
  | Hidden nat
  | Faded nat
  | Elapse nat

text \<open>The user's edit of a field that the page has, and the \<^verbatim>\<open>input\<close> event that follows it.\<close>

fun field_exists :: "field \<Rightarrow> page \<Rightarrow> bool" where
  "field_exists Price p = (price_in p \<noteq> None)"
| "field_exists Discount p = (discount_in p \<noteq> None)"

fun edit :: "field \<Rightarrow> jsstring \<Rightarrow> page \<Rightarrow> page" where
  "edit Price v p = p\<lparr>price_in := Some v\<rparr>"
| "edit Discount v p = p\<lparr>discount_in := Some v\<rparr>"

definition dispatch_input :: "page \<Rightarrow> page" where
  "dispatch_input p =
     (if installed p then (case on_input p of Inl e \<Rightarrow> p | Inr q \<Rightarrow> q) else p)"

fun step :: "event \<Rightarrow> page \<Rightarrow> page" where
  "step (Input fld v) p = (if field_exists fld p then dispatch_input (edit fld v p) else p)"
| "step (Change k files) p = (if installed p then on_change k files p else p)"
| "step (Load j) p = on_load j p"
| "step (ReadError j) p = on_read_error j p"
| "step (Hidden k) p = on_hidden k p"
| "step (Faded k) p = on_faded k p"
| "step (Elapse d) p = elapse d p"

definition run :: "event list \<Rightarrow> page \<Rightarrow> page" where
  "run evs p = fold step evs p"

fun elapsed :: "event list \<Rightarrow> nat" where
  "elapsed [] = 0"
| "elapsed (Elapse d # evs) = d + elapsed evs"
| "elapsed (ev # evs) = elapsed evs"

section \<open>Results in the words of the specification\<close>

text \<open>
  The first of success, danger, warning and info whose class \<^verbatim>\<open>alert-...\<close> the alert
  carries, and success when it carries none.
\<close>

definition severity_in_order :: "alert_el \<Rightarrow> jsstring" where
  "severity_in_order a =
     (case find (\<lambda>s. hasClass a (str ''alert-'' @ s))
             [str ''success'', str ''danger'', str ''warning'', str ''info''] of
        None \<Rightarrow> str ''success''
      | Some s \<Rightarrow> s)"

text \<open>The value \<open>p - p * d / 100\<close> in double arithmetic.\<close>

definition discounted :: "number \<Rightarrow> number \<Rightarrow> number" where
  "discounted p d = num_sub p (num_div (num_mul p d) (Finite False 100))"

text \<open>
  The decimal numeral with exactly two digits after the point that denotes \<open>n / 100\<close>,
  with a minus sign when \<open>neg\<close>.
\<close>

definition two_decimals :: "bool \<Rightarrow> nat \<Rightarrow> jsstring" where
  "two_decimals neg n =
     (if neg then str ''-'' else []) @ dec_digits (n div 100) @ str ''.'' @
     [digit (n mod 100 div 10), digit (n mod 10)]"

section \<open>Example pages\<close>

definition blank_page :: page where
  "blank_page =
     \<lparr>installed = False, price_in = None, discount_in = None, final_price = None,
      img_src = [], file_inputs = [], readers = [], forms = [], alerts = [], toasts = [],
      clock = 0, timers = [], closing = False\<rparr>"

definition example_alert :: alert_el where
  "example_alert =
     \<lparr>alert_text = str '' Item saved '', alert_classes = [str ''alert'', str ''alert-info'']\<rparr>"

definition fading_alert :: alert_el where
  "fading_alert =
     \<lparr>alert_text = str ''Menu item deleted'',
      alert_classes = [str ''alert'', str ''alert-success'', str ''fade'', str ''show'']\<rparr>"

definition price_page :: page where
  "price_page =
     blank_page\<lparr>installed := True, price_in := Some (str ''100''),
                 discount_in := Some (str ''0''), final_price := Some []\<rparr>"

definition preview_page :: page where
  "preview_page =
     blank_page\<lparr>installed := True, img_src := [None], file_inputs := [\<lparr>sibling_imgs = [0]\<rparr>]\<rparr>"

section \<open>Flash messages become toasts\<close>

declare binade.simps [simp del] dec_digits.simps [simp del] shortest.simps [simp del]

lemma str_append: "str a @ str b = str (a @ b)"
  by (simp add: str_def)

lemma alert_type_in_order: "alert_type a = severity_in_order a"
  by (simp add: alert_type_def severity_in_order_def str_append)

lemma toasts_showToast:
  "toasts (showToast m ty p) =
     toasts p @ [\<lparr>toast_message = m,
                  toast_type = (case ty of None \<Rightarrow> str ''success'' | Some t \<Rightarrow> t)\<rparr>]"
  by (simp add: showToast_def)


lemma all_dropWhile: "(\<forall>x\<in>set (dropWhile P s). P x) \<longleftrightarrow> (\<forall>x\<in>set s. P x)"
  by (induction s) simp_all

lemma trim_empty_iff: "trim s = [] \<longleftrightarrow> (\<forall>c\<in>set s. isWhiteSpace c)"
  by (simp add: trim_def trimStart_def dropWhile_eq_Nil_conv all_dropWhile)

lemma text_data: "0x3C \<notin> set m \<Longrightarrow> text_content False (m @ rest) = m @ text_content False rest"
  by (induction m) auto

lemma text_tag: "0x3E \<notin> set m \<Longrightarrow> text_content True (m @ rest) = text_content True rest"
  by (induction m) auto

lemma text_template_line:
  "text_content False (template_line n s @ rest) = 0x0A # replicate n 0x20 @ text_content False (s @ rest)"
  using text_data [of "0x0A # replicate n 0x20" "s @ rest"] by (simp add: template_line_def)


lemma toast_text_content:
  assumes "\<And>rest. text_content False (toast_message t @ rest) =
      shown @ text_content False rest"
    and "0x3E \<notin> set (toast_type t)"
  shows "text_content False (toast_markup t) =
     (0x0A # replicate 12 0x20 @ 0x0A # replicate 16 0x20 @ 0x0A # replicate 20 0x20 @
      0x0A # replicate 24 0x20 @ 0x0A # replicate 28 0x20) @ shown @
     (0x0A # replicate 24 0x20 @ 0x0A # replicate 24 0x20 @ 0x0A # replicate 20 0x20 @
      0x0A # replicate 16 0x20 @ 0x0A # replicate 12 0x20 @ 0x0A # replicate 8 0x20)"
proof -
  have tag1: "\<And>rest. text_content False
      (str ''<div class=\"position-fixed bottom-0 end-0 p-3\" style=\"z-index: 11\">'' @ rest) =
      text_content False rest"
    by (simp add: str_def)
  have tag2: "\<And>rest. text_content False
      (str ''<div class=\"toast align-items-center text-white bg-'' @ toast_type t @
        str '' border-0\" role=\"alert\">'' @ rest) = text_content False rest"
    using text_tag [OF assms(2)] by (simp add: str_def)
  have tag3: "\<And>rest. text_content False (str ''<div class=\"d-flex\">'' @ rest) =
      text_content False rest"
    by (simp add: str_def)
  have tag4: "\<And>rest. text_content False (str ''<div class=\"toast-body\">'' @ rest) =
      text_content False rest"
    by (simp add: str_def)
  have tag5: "\<And>rest. text_content False (str ''</div>'' @ rest) = text_content False rest"
    by (simp add: str_def)
  have tag6: "\<And>rest. text_content False
      (str ''<button type=\"button\" class=\"btn-close btn-close-white me-2 m-auto\" data-bs-dismiss=\"toast\"></button>'' @ rest) =
      text_content False rest"
    by (simp add: str_def)
  note msg = assms(1)
  have last: "text_content False (template_line 8 []) = 0x0A # replicate 8 0x20"
    using text_template_line [of 8 "[]" "[]"] by simp
  show ?thesis
    unfolding toast_markup_def
    by (simp only: text_template_line tag1 tag2 tag3 tag4 tag5 tag6 msg last append_assoc append_Cons
        append_Nil)
qed







lemma trim_pad:
  assumes "\<forall>c\<in>set a. isWhiteSpace c" and "\<forall>c\<in>set b. isWhiteSpace c"
  shows "trim (a @ m @ b) = trim m"
proof (cases "\<forall>c\<in>set m. isWhiteSpace c")
  case True
  with assms have "trim (a @ m @ b) = []" and "trim m = []"
    by (auto simp: trim_empty_iff)
  then show ?thesis by simp
next
  case False
  then obtain x where x: "x \<in> set m" "\<not> isWhiteSpace x" by blast
  have "dropWhile isWhiteSpace (a @ m @ b) = dropWhile isWhiteSpace (m @ b)"
    using assms(1) by (simp add: dropWhile_append)
  also have "\<dots> = dropWhile isWhiteSpace m @ b"
    using x by (rule dropWhile_append1)
  finally have front: "dropWhile isWhiteSpace (a @ m @ b) = dropWhile isWhiteSpace m @ b" .
  have "dropWhile isWhiteSpace (rev b @ rev (dropWhile isWhiteSpace m)) =
      dropWhile isWhiteSpace (rev (dropWhile isWhiteSpace m))"
    using assms(2) by (simp add: dropWhile_append)
  then show ?thesis
    by (simp add: trim_def trimStart_def front)
qed

lemma toast_text_shown:
  assumes "\<And>rest. text_content False (toast_message t @ rest) =
      shown @ text_content False rest"
    and "0x3E \<notin> set (toast_type t)"
  shows "toast_text t = trim shown"
  unfolding toast_text_def toast_text_content [OF assms]
  by (subst trim_pad) (auto simp: isWhiteSpace_def)




text \<open>
  A message with a tag in it is parsed as markup, and the toast shows the text without
  the tag: the message is not what the toast shows.
\<close>

lemma tag_in_message_is_parsed:
  "toast_text \<lparr>toast_message = str ''Item <Pizza> saved'', toast_type = str ''success''\<rparr> =
     str ''Item  saved''"
proof -
  have "toast_text \<lparr>toast_message = str ''Item <Pizza> saved'', toast_type = str ''success''\<rparr> =
      trim (str ''Item  saved'')"
    by (intro toast_text_shown) (simp_all add: str_def)
  then show ?thesis
    by (simp add: trim_def trimStart_def isWhiteSpace_def str_def)
qed


text \<open>
  Claim C6. For an alert that is converted to a toast, the type handed to
  \<^verbatim>\<open>showToast\<close> is the first of success, danger, warning, info whose class the alert
  has, and success when it has none of them.
\<close>

theorem flash_severity_in_order:
  "trim (alert_text a) \<noteq> [] \<Longrightarrow>
   toasts (flash_to_toast a p) =
     toasts p @ [\<lparr>toast_message = trim (alert_text a), toast_type = severity_in_order a\<rparr>]"
  by (simp add: flash_to_toast_def Let_def toasts_showToast alert_type_in_order)

theorem flash_severity_in_order_witness:
  "toasts (flash_to_toast
      \<lparr>alert_text = str '' Saved '',
       alert_classes = [str ''alert'', str ''alert-warning'', str ''alert-info'']\<rparr> blank_page) =
     [\<lparr>toast_message = str ''Saved'', toast_type = str ''warning''\<rparr>]"
  using flash_severity_in_order
    [of "\<lparr>alert_text = str '' Saved '',
          alert_classes = [str ''alert'', str ''alert-warning'', str ''alert-info'']\<rparr>" blank_page]
  by (simp add: blank_page_def trim_def trimStart_def isWhiteSpace_def str_def
      severity_in_order_def hasClass_def)

text \<open>
  Claim C10. For an alert whose text is empty or holds white space only, the loop body
  creates no toast: it leaves the page as it is.
\<close>

theorem whitespace_alert_skipped:
  "\<forall>c\<in>set (alert_text a). isWhiteSpace c \<Longrightarrow> flash_to_toast a p = p"
  by (simp add: flash_to_toast_def trim_empty_iff)

theorem whitespace_alert_skipped_witness:
  "flash_to_toast \<lparr>alert_text = [0x20, 0x0A, 0x3000], alert_classes = [str ''alert'']\<rparr> blank_page =
     blank_page"
  using whitespace_alert_skipped
    [of "\<lparr>alert_text = [0x20, 0x0A, 0x3000], alert_classes = [str ''alert'']\<rparr>" blank_page]
  by (simp add: isWhiteSpace_def)

section \<open>Toast cleanup\<close>

lemma run_Nil: "run [] p = p"
  by (simp add: run_def)

lemma run_Cons: "run (ev # evs) p = run evs (step ev p)"
  by (simp add: run_def)

lemma run_append: "run (evs @ evs') p = run evs' (run evs p)"
  by (simp add: run_def)

lemma hidden_all: "toasts (run (replicate n (Hidden 0)) p) = drop n (toasts p)"
proof (induction n arbitrary: p)
  case 0
  then show ?case by (simp add: run_Nil)
next
  case (Suc n)
  show ?case
    by (cases "toasts p") (simp_all add: run_Cons Suc on_hidden_def)
qed

text \<open>
  Claim C7. When the hide transition of the toast that \<^verbatim>\<open>showToast\<close> made completes,
  the page is as it was before \<^verbatim>\<open>showToast\<close>: the whole container is gone. In general
  the handler takes exactly the container of the hidden toast out of the page, and once
  every toast has hidden no container is left.
\<close>

theorem toast_container_removed:
  "step (Hidden (length (toasts p))) (showToast m ty p) = p \<and>
   (k < length (toasts p) \<longrightarrow>
      toasts (step (Hidden k) p) = take k (toasts p) @ drop (Suc k) (toasts p)) \<and>
   toasts (run (replicate (length (toasts p)) (Hidden 0)) p) = []"
  by (simp add: on_hidden_def showToast_def hidden_all)

theorem toast_container_removed_witness:
  "toasts (step (Hidden 0)
     (blank_page\<lparr>toasts := [\<lparr>toast_message = str ''a'', toast_type = str ''info''\<rparr>,
                            \<lparr>toast_message = str ''b'', toast_type = str ''danger''\<rparr>]\<rparr>)) =
   [\<lparr>toast_message = str ''b'', toast_type = str ''danger''\<rparr>]"
  using toast_container_removed
    [of "blank_page\<lparr>toasts := [\<lparr>toast_message = str ''a'', toast_type = str ''info''\<rparr>,
                              \<lparr>toast_message = str ''b'', toast_type = str ''danger''\<rparr>]\<rparr>"
        "[]" None 0]
  by simp

section \<open>Auto-dismissal of the alerts\<close>

lemma fade_not_show: "str ''fade'' \<noteq> str ''show''"
  by (simp add: str_def)

lemma hasClass_removeClass: "hasClass (removeClass c a) x \<longleftrightarrow> hasClass a x \<and> x \<noteq> c"
  by (auto simp: hasClass_def removeClass_def)

lemma close_alerts_fields:
  "alerts (run_callback cb p) =
     map (removeClass (str ''show'')) (filter (\<lambda>a. hasClass a (str ''fade'')) (alerts p))"
  "closing (run_callback cb p)"
  "clock (run_callback cb p) = clock p"
  "timers (run_callback cb p) = timers p"
  by (cases cb; simp)+

lemma fold_callbacks_fields:
  "clock (fold (\<lambda>t. run_callback (snd t)) ts p) = clock p"
  "timers (fold (\<lambda>t. run_callback (snd t)) ts p) = timers p"
  by (induction ts arbitrary: p) (simp_all add: close_alerts_fields)

lemma fold_callbacks_none: "fold (\<lambda>t. run_callback (snd t)) [] p = p"
  by simp

lemma close_alerts_faded_out: "faded_out (run_callback cb p)"
  using fade_not_show
  by (auto simp: faded_out_def close_alerts_fields hasClass_removeClass)

lemma close_alerts_length: "length (alerts (run_callback cb p)) \<le> length (alerts p)"
  by (simp add: close_alerts_fields)

lemma fold_callbacks_faded_out:
  "ts \<noteq> [] \<or> faded_out p \<Longrightarrow> faded_out (fold (\<lambda>t. run_callback (snd t)) ts p)"
proof (induction ts arbitrary: p)
  case Nil
  then show ?case by simp
next
  case (Cons t ts)
  have "faded_out (run_callback (snd t) p)" by (rule close_alerts_faded_out)
  then show ?case by (simp add: Cons.IH)
qed

lemma fold_callbacks_length:
  "length (alerts (fold (\<lambda>t. run_callback (snd t)) ts p)) \<le> length (alerts p)"
proof (induction ts arbitrary: p)
  case Nil
  then show ?case by simp
next
  case (Cons t ts)
  have "length (alerts (fold (\<lambda>t. run_callback (snd t)) ts (run_callback (snd t) p)))
      \<le> length (alerts (run_callback (snd t) p))"
    by (rule Cons.IH)
  also have "\<dots> \<le> length (alerts p)" by (rule close_alerts_length)
  finally show ?case by simp
qed

lemma elapse_fields:
  "clock (elapse d p) = clock p + d"
  "timers (elapse d p) = filter (\<lambda>t. \<not> is_due (clock p + d) t) (timers p)"
  by (simp_all add: elapse_def Let_def fold_callbacks_fields)

lemma elapse_none_due:
  "filter (is_due (clock p + d)) (timers p) = [] \<Longrightarrow>
     alerts (elapse d p) = alerts p \<and> closing (elapse d p) = closing p"
  by (simp add: elapse_def Let_def)

lemma elapse_some_due:
  "filter (is_due (clock p + d)) (timers p) \<noteq> [] \<Longrightarrow> faded_out (elapse d p)"
  by (simp add: elapse_def Let_def fold_callbacks_faded_out)

lemma elapse_faded_out:
  assumes "faded_out p"
  shows "faded_out (elapse d p)"
proof -
  have "faded_out (p\<lparr>clock := clock p + d,
      timers := filter (\<lambda>t. \<not> is_due (clock p + d) t) (timers p)\<rparr>)"
    using assms by (simp add: faded_out_def)
  then show ?thesis
    by (simp add: elapse_def Let_def fold_callbacks_faded_out)
qed

lemma elapse_length: "length (alerts (elapse d p)) \<le> length (alerts p)"
  using fold_callbacks_length
    [of "filter (is_due (clock p + d)) (timers p)"
        "p\<lparr>clock := clock p + d, timers := filter (\<lambda>t. \<not> is_due (clock p + d) t) (timers p)\<rparr>"]
  by (simp add: elapse_def Let_def)

lemma faded_fields:
  "clock (on_faded k p) = clock p" "timers (on_faded k p) = timers p"
  "closing (on_faded k p) = closing p"
  by (simp_all add: on_faded_def)

lemma faded_faded_out: "faded_out p \<Longrightarrow> faded_out (on_faded k p)"
  by (auto simp: faded_out_def on_faded_def dest: in_set_takeD in_set_dropD)

lemma faded_length: "length (alerts (on_faded k p)) \<le> length (alerts p)"
  by (simp add: on_faded_def)

lemma faded_idle: "\<not> closing p \<Longrightarrow> on_faded k p = p"
  by (simp add: on_faded_def)

lemma step_keeps:
  "\<not> (\<exists>d. ev = Elapse d) \<Longrightarrow> \<not> (\<exists>k. ev = Faded k) \<Longrightarrow>
     alerts (step ev p) = alerts p \<and> timers (step ev p) = timers p \<and>
     clock (step ev p) = clock p \<and> closing (step ev p) = closing p"
proof (cases ev)
  case (Input f v)
  then show ?thesis
    by (cases f)
       (auto simp: dispatch_input_def on_input_def split: option.splits sum.splits)
qed (simp_all add: on_change_def on_load_def on_read_error_def on_hidden_def Let_def)

lemma step_clock_timers:
  "\<not> (\<exists>d. ev = Elapse d) \<Longrightarrow> timers (step ev p) = timers p \<and> clock (step ev p) = clock p"
proof (cases "\<exists>k. ev = Faded k")
  case True
  then show ?thesis by (auto simp: faded_fields)
next
  case False
  assume "\<not> (\<exists>d. ev = Elapse d)"
  with False show ?thesis using step_keeps [of ev p] by simp
qed

lemma elapsed_other: "\<not> (\<exists>d. ev = Elapse d) \<Longrightarrow> elapsed (ev # evs) = elapsed evs"
  by (cases ev) simp_all

lemma step_faded_out: "faded_out p \<Longrightarrow> faded_out (step ev p)"
proof (cases "(\<exists>d. ev = Elapse d) \<or> (\<exists>k. ev = Faded k)")
  case True
  assume "faded_out p"
  with True show ?thesis by (auto simp: elapse_faded_out faded_faded_out)
next
  case False
  assume "faded_out p"
  with False show ?thesis using step_keeps [of ev p] by (simp add: faded_out_def)
qed

lemma step_length: "length (alerts (step ev p)) \<le> length (alerts p)"
proof (cases "(\<exists>d. ev = Elapse d) \<or> (\<exists>k. ev = Faded k)")
  case True
  then show ?thesis by (auto simp: elapse_length faded_length)
next
  case False
  then show ?thesis using step_keeps [of ev p] by simp
qed

lemma run_faded_out: "faded_out p \<Longrightarrow> faded_out (run evs p)"
  by (induction evs arbitrary: p) (simp_all add: run_Nil run_Cons step_faded_out)

lemma run_length: "length (alerts (run evs p)) \<le> length (alerts p)"
proof (induction evs arbitrary: p)
  case Nil
  then show ?case by (simp add: run_Nil)
next
  case (Cons ev evs)
  have "length (alerts (run evs (step ev p))) \<le> length (alerts (step ev p))"
    by (rule Cons.IH)
  also have "\<dots> \<le> length (alerts p)" by (rule step_length)
  finally show ?case by (simp add: run_Cons)
qed

lemma timer_fires:
  "(due, cb) \<in> set (timers p) \<Longrightarrow> clock p < due \<Longrightarrow>
     due \<le> clock p + elapsed evs \<Longrightarrow> faded_out (run evs p)"
proof (induction evs arbitrary: p)
  case Nil
  then show ?case by simp
next
  case (Cons ev evs)
  show ?case
  proof (cases "\<exists>d. ev = Elapse d")
    case True
    then obtain d where ev: "ev = Elapse d" by blast
    show ?thesis
    proof (cases "due \<le> clock p + d")
      case True
      with Cons.prems(1) have "filter (is_due (clock p + d)) (timers p) \<noteq> []"
        by (force simp: filter_empty_conv is_due_def)
      then have "faded_out (step ev p)"
        by (simp add: ev elapse_some_due)
      then show ?thesis by (simp add: run_Cons run_faded_out)
    next
      case False
      with Cons.prems(1) have "(due, cb) \<in> set (timers (step ev p))"
        by (simp add: ev elapse_fields is_due_def)
      moreover have "due \<le> clock (step ev p) + elapsed evs"
        using Cons.prems(3) by (simp add: ev elapse_fields)
      moreover have "clock (step ev p) < due"
        using False by (simp add: ev elapse_fields)
      ultimately show ?thesis by (simp add: run_Cons Cons.IH)
    qed
  next
    case False
    then have keep: "timers (step ev p) = timers p" "clock (step ev p) = clock p"
      using step_clock_timers [of ev p] by simp_all
    have "elapsed (ev # evs) = elapsed evs"
      using False by (rule elapsed_other)
    with Cons.prems have "faded_out (run evs (step ev p))"
      by (intro Cons.IH) (simp_all add: keep)
    then show ?thesis by (simp add: run_Cons)
  qed
qed

lemma timers_wait:
  "\<not> closing p \<Longrightarrow> \<forall>t\<in>set (timers p). clock p + elapsed evs < fst t \<Longrightarrow>
     alerts (run evs p) = alerts p"
proof (induction evs arbitrary: p)
  case Nil
  then show ?case by (simp add: run_Nil)
next
  case (Cons ev evs)
  show ?case
  proof (cases "\<exists>d. ev = Elapse d")
    case True
    then obtain d where ev: "ev = Elapse d" by blast
    from Cons.prems(2) have none: "filter (is_due (clock p + d)) (timers p) = []"
      by (auto simp: ev filter_empty_conv is_due_def)
    then have same: "alerts (step ev p) = alerts p" "closing (step ev p) = closing p"
      using elapse_none_due [of p d] by (simp_all add: ev)
    have "\<forall>t\<in>set (timers (step ev p)). clock (step ev p) + elapsed evs < fst t"
      using Cons.prems(2) by (simp add: ev elapse_fields add.assoc)
    with Cons.prems(1) have "alerts (run evs (step ev p)) = alerts (step ev p)"
      by (intro Cons.IH) (simp_all add: same)
    then show ?thesis by (simp add: run_Cons same)
  next
    case False
    have same: "alerts (step ev p) = alerts p \<and> closing (step ev p) = closing p"
    proof (cases "\<exists>k. ev = Faded k")
      case True
      with Cons.prems(1) show ?thesis by (auto simp: faded_idle)
    next
      case no: False
      with False show ?thesis using step_keeps [of ev p] by simp
    qed
    have keep: "timers (step ev p) = timers p" "clock (step ev p) = clock p"
      using False step_clock_timers [of ev p] by simp_all
    have "elapsed (ev # evs) = elapsed evs"
      using False by (rule elapsed_other)
    with Cons.prems(2)
    have "\<forall>t\<in>set (timers (step ev p)). clock (step ev p) + elapsed evs < fst t"
      by (simp add: keep)
    with Cons.prems(1) have "alerts (run evs (step ev p)) = alerts (step ev p)"
      by (intro Cons.IH) (simp_all add: same)
    then show ?thesis by (simp add: run_Cons same)
  qed
qed

lemma faded_all:
  "closing p \<Longrightarrow> alerts (run (replicate n (Faded 0)) p) = drop n (alerts p)"
proof (induction n arbitrary: p)
  case 0
  then show ?case by (simp add: run_Nil)
next
  case (Suc n)
  have "closing (on_faded 0 p)" using Suc.prems by (simp add: faded_fields)
  then have "alerts (run (replicate n (Faded 0)) (on_faded 0 p)) = drop n (alerts (on_faded 0 p))"
    by (rule Suc.IH)
  then show ?case
    using Suc.prems by (cases "alerts p") (simp_all add: run_Cons on_faded_def)
qed

lemma flash_fold_keeps:
  "alerts (fold flash_to_toast as p) = alerts p \<and> timers (fold flash_to_toast as p) = timers p \<and>
   clock (fold flash_to_toast as p) = clock p \<and> closing (fold flash_to_toast as p) = closing p"
  by (induction as arbitrary: p) (simp_all add: flash_to_toast_def showToast_def Let_def)

lemma ready_fields:
  "timers (ready p) = timers p @ [(clock p + 5000, CloseAlerts)]"
  "alerts (ready p) = alerts p"
  "clock (ready p) = clock p"
  "closing (ready p) = closing p"
  by (simp_all add: ready_def setTimeout_def flash_fold_keeps)

text \<open>
  Claim C8, as amended. The ready callback leaves the alerts in the page and queues one
  callback, due 5000 ms later, that closes them. When it runs, the alerts without the
  class \<^verbatim>\<open>fade\<close> are removed and the others lose the class \<^verbatim>\<open>show\<close>. Whatever else
  happens to the page (edits, file selections, reads, toasts hiding), once 5000 ms have
  passed every alert still in the page is such a fading one, and once their fade
  transitions have ended no alert is left. On a page with no other timer and nothing
  closing the alerts are all there, unchanged, before the 5000 ms have passed.
\<close>

theorem alerts_auto_dismissed:
  "timers (ready p) = timers p @ [(clock p + 5000, CloseAlerts)] \<and>
   alerts (ready p) = alerts p \<and>
   alerts (run_callback CloseAlerts p) =
     map (removeClass (str ''show'')) (filter (\<lambda>a. hasClass a (str ''fade'')) (alerts p)) \<and>
   (5000 \<le> elapsed evs \<longrightarrow>
      closing (run evs (ready p)) \<and>
      (\<forall>a\<in>set (alerts (run evs (ready p))).
          hasClass a (str ''fade'') \<and> \<not> hasClass a (str ''show'')) \<and>
      alerts (run (evs @ replicate (length (alerts p)) (Faded 0)) (ready p)) = []) \<and>
   (timers p = [] \<and> \<not> closing p \<and> elapsed evs < 5000 \<longrightarrow>
      alerts (run evs (ready p)) = alerts p)"
proof (intro conjI impI)
  assume late: "5000 \<le> elapsed evs"
  have "faded_out (run evs (ready p))"
    using late
    by (intro timer_fires [where due = "clock p + 5000" and cb = CloseAlerts])
       (simp_all add: ready_fields)
  then show closing: "closing (run evs (ready p))"
    and "\<forall>a\<in>set (alerts (run evs (ready p))).
          hasClass a (str ''fade'') \<and> \<not> hasClass a (str ''show'')"
    by (simp_all add: faded_out_def)
  have "length (alerts (run evs (ready p))) \<le> length (alerts p)"
    using run_length [of evs "ready p"] by (simp add: ready_fields)
  then show "alerts (run (evs @ replicate (length (alerts p)) (Faded 0)) (ready p)) = []"
    using closing by (simp add: run_append faded_all)
next
  assume "timers p = [] \<and> \<not> closing p \<and> elapsed evs < 5000"
  then have "alerts (run evs (ready p)) = alerts (ready p)"
    by (intro timers_wait) (simp_all add: ready_fields)
  then show "alerts (run evs (ready p)) = alerts p"
    by (simp add: ready_fields)
qed (simp_all add: ready_fields)

theorem alerts_auto_dismissed_witness:
  "alerts (run [Elapse 2000, Hidden 0, Elapse 3000]
      (ready (blank_page\<lparr>alerts := [example_alert, fading_alert]\<rparr>))) =
     [removeClass (str ''show'') fading_alert] \<and>
   alerts (run [Elapse 2000, Hidden 0, Elapse 3000, Faded 0, Faded 0]
      (ready (blank_page\<lparr>alerts := [example_alert, fading_alert]\<rparr>))) = [] \<and>
   alerts (run [Elapse 4999, Faded 0]
      (ready (blank_page\<lparr>alerts := [example_alert, fading_alert]\<rparr>))) =
     [example_alert, fading_alert]"
proof -
  let ?p = "blank_page\<lparr>alerts := [example_alert, fading_alert]\<rparr>"
  have "alerts (run [Elapse 2000, Hidden 0, Elapse 3000] (ready ?p)) =
      alerts (run_callback CloseAlerts ?p)"
    by (simp add: run_def ready_def setTimeout_def blank_page_def elapse_def is_due_def
        flash_to_toast_def showToast_def on_hidden_def Let_def)
  also have "\<dots> = [removeClass (str ''show'') fading_alert]"
    using alerts_auto_dismissed [of ?p "[]"]
    by (simp add: example_alert_def fading_alert_def hasClass_def str_def)
  finally have first: "alerts (run [Elapse 2000, Hidden 0, Elapse 3000] (ready ?p)) =
      [removeClass (str ''show'') fading_alert]" .
  show ?thesis
    using first alerts_auto_dismissed [of ?p "[Elapse 2000, Hidden 0, Elapse 3000]"]
      alerts_auto_dismissed [of ?p "[Elapse 4999, Faded 0]"]
    by (simp add: blank_page_def)
qed

text \<open>
  Claim C8 as stated fails: an alert with the classes \<^verbatim>\<open>fade show\<close> is still in the
  page when the 5000 ms have passed and the callback has run; it has lost \<^verbatim>\<open>show\<close> only.
\<close>

theorem fading_alert_stays_in_page:
  "alerts (run [Elapse 5000] (ready (blank_page\<lparr>alerts := [fading_alert]\<rparr>))) =
     [\<lparr>alert_text = str ''Menu item deleted'',
       alert_classes = [str ''alert'', str ''alert-success'', str ''fade'']\<rparr>]"
  by (simp add: run_def ready_def setTimeout_def blank_page_def elapse_def is_due_def
      flash_to_toast_def showToast_def Let_def fading_alert_def hasClass_def removeClass_def
      str_def)

section \<open>The preview follows the reads\<close>

lemma length_set_src: "length (set_src url preview srcs) = length srcs"
  unfolding set_src_def by (induction preview arbitrary: srcs) simp_all

lemma set_src_nth:
  "i \<in> set preview \<Longrightarrow> i < length srcs \<Longrightarrow> set_src url preview srcs ! i = Some url"
  unfolding set_src_def
proof (induction preview arbitrary: srcs rule: rev_induct)
  case Nil
  then show ?case by simp
next
  case (snoc j preview)
  have len: "length (fold (\<lambda>i s. s[i := Some url]) preview srcs) = length srcs"
    using length_set_src [of url preview srcs] by (simp add: set_src_def)
  show ?case
  proof (cases "i = j")
    case True
    with snoc.prems len show ?thesis by simp
  next
    case False
    with snoc.prems have "i \<in> set preview" by simp
    with snoc.IH snoc.prems False show ?thesis by simp
  qed
qed

lemma load_sets_src:
  "j < length (readers q) \<Longrightarrow> i \<in> set (reader_preview (readers q ! j)) \<Longrightarrow>
   i < length (img_src q) \<Longrightarrow>
   img_src (step (Load j) q) ! i =
     Some (str ''data:'' @ file_encoded (reader_file (readers q ! j)))"
  by (simp add: on_load_def Let_def set_src_nth readAsDataURL_result_def)

lemma change_run:
  assumes "installed p" and "k < length (file_inputs p)"
    and "sibling_imgs (file_inputs p ! k) = preview" and "preview \<noteq> []"
  shows "run (map (\<lambda>f. Change k [f]) fs) p =
     p\<lparr>readers := readers p @ map (\<lambda>f. \<lparr>reader_file = f, reader_preview = preview\<rparr>) fs\<rparr>"
  using assms
proof (induction fs arbitrary: p)
  case Nil
  then show ?case by (simp add: run_Nil)
next
  case (Cons f fs)
  let ?p' = "p\<lparr>readers := readers p @ [\<lparr>reader_file = f, reader_preview = preview\<rparr>]\<rparr>"
  have st: "step (Change k [f]) p = ?p'"
    using Cons.prems by (simp add: on_change_def)
  have "run (map (\<lambda>f. Change k [f]) fs) ?p' =
      ?p'\<lparr>readers := readers ?p' @ map (\<lambda>f. \<lparr>reader_file = f, reader_preview = preview\<rparr>) fs\<rparr>"
    using Cons.prems by (intro Cons.IH) simp_all
  then show ?case by (simp add: run_Cons st del: step.simps)
qed

text \<open>
  Claim C5. On a change event of a file input that has a sibling image, with a file
  selected, a read of the first file starts and the page is otherwise unchanged; whenever
  that read completes, the \<^verbatim>\<open>src\<close> of every sibling image is the data URL of the file,
  \<^verbatim>\<open>data:\<close> followed by its encoding. With no sibling image or no file the handler does
  nothing.
\<close>

theorem preview_read:
  assumes "installed p" and "k < length (file_inputs p)"
    and "sibling_imgs (file_inputs p ! k) = preview"
  shows "(preview \<noteq> [] \<and> files \<noteq> [] \<longrightarrow>
            step (Change k files) p =
              p\<lparr>readers := readers p @ [\<lparr>reader_file = hd files, reader_preview = preview\<rparr>]\<rparr> \<and>
            (\<forall>q j. j < length (readers q) \<and>
                   readers q ! j = \<lparr>reader_file = hd files, reader_preview = preview\<rparr> \<longrightarrow>
               (\<forall>i\<in>set preview. i < length (img_src q) \<longrightarrow>
                  img_src (step (Load j) q) ! i =
                    Some (str ''data:'' @ file_encoded (hd files))))) \<and>
         (preview = [] \<or> files = [] \<longrightarrow> step (Change k files) p = p)"
proof (intro conjI impI allI ballI)
  assume "preview \<noteq> [] \<and> files \<noteq> []"
  with assms show "step (Change k files) p =
      p\<lparr>readers := readers p @ [\<lparr>reader_file = hd files, reader_preview = preview\<rparr>]\<rparr>"
    by (simp add: on_change_def)
next
  fix q :: page and j i
  assume "j < length (readers q) \<and>
          readers q ! j = \<lparr>reader_file = hd files, reader_preview = preview\<rparr>"
    and "i \<in> set preview" and "i < length (img_src q)"
  then show "img_src (step (Load j) q) ! i = Some (str ''data:'' @ file_encoded (hd files))"
    using load_sets_src [of j q i] by simp
next
  assume "preview = [] \<or> files = []"
  with assms show "step (Change k files) p = p"
    by (auto simp: on_change_def)
qed

theorem preview_read_witness:
  "step (Change 0 [\<lparr>file_encoded = str ''image/png;base64,iVBORw==''\<rparr>]) preview_page =
     preview_page\<lparr>readers := [\<lparr>reader_file = \<lparr>file_encoded = str ''image/png;base64,iVBORw==''\<rparr>,
                                  reader_preview = [0]\<rparr>]\<rparr> \<and>
   img_src (step (Load 0)
       (step (Change 0 [\<lparr>file_encoded = str ''image/png;base64,iVBORw==''\<rparr>]) preview_page)) ! 0 =
     Some (str ''data:image/png;base64,iVBORw=='') \<and>
   step (Change 0 []) preview_page = preview_page"
proof -
  let ?f = "\<lparr>file_encoded = str ''image/png;base64,iVBORw==''\<rparr>"
  let ?q = "preview_page\<lparr>readers := [\<lparr>reader_file = ?f, reader_preview = [0]\<rparr>]\<rparr>"
  have pre: "installed preview_page" "0 < length (file_inputs preview_page)"
    "sibling_imgs (file_inputs preview_page ! 0) = [0]"
    by (simp_all add: preview_page_def blank_page_def)
  have started: "step (Change 0 [?f]) preview_page = ?q"
    using preview_read [OF pre, of "[?f]"] by (simp add: preview_page_def blank_page_def)
  have "\<forall>q j. j < length (readers q) \<and>
            readers q ! j = \<lparr>reader_file = ?f, reader_preview = [0]\<rparr> \<longrightarrow>
          (\<forall>i\<in>set [0]. i < length (img_src q) \<longrightarrow>
             img_src (step (Load j) q) ! i = Some (str ''data:'' @ file_encoded ?f))"
    using preview_read [OF pre, of "[?f]"] by simp
  then have "img_src (step (Load 0) ?q) ! 0 = Some (str ''data:'' @ file_encoded ?f)"
    by (simp add: preview_page_def blank_page_def)
  moreover have "step (Change 0 []) preview_page = preview_page"
    using preview_read [OF pre, of "[]"] by simp
  ultimately show ?thesis
    using started by (simp add: str_append)
qed

text \<open>
  Claim C9. Every selection on a file input with a sibling image starts a read of its
  own: after the selections of \<open>fs\<close> the page holds one more reader per file and no read
  was cancelled. Whatever happened before, the read that completes sets the image to the
  data URL of its own file, so the read that completes last decides the image: of two
  files selected one after the other, the first one shows when its read completes
  last, the second one when the reads complete in the order of selection.
\<close>

theorem last_completed_read_wins:
  assumes "installed p" and "k < length (file_inputs p)"
    and "sibling_imgs (file_inputs p ! k) = preview" and "preview \<noteq> []"
  shows "run (map (\<lambda>f. Change k [f]) fs) p =
           p\<lparr>readers := readers p @ map (\<lambda>f. \<lparr>reader_file = f, reader_preview = preview\<rparr>) fs\<rparr> \<and>
         (\<forall>q evs j i. j < length (readers (run evs q)) \<and>
              i \<in> set (reader_preview (readers (run evs q) ! j)) \<and>
              i < length (img_src (run evs q)) \<longrightarrow>
            img_src (run (evs @ [Load j]) q) ! i =
              Some (readAsDataURL_result (reader_file (readers (run evs q) ! j)))) \<and>
         (\<forall>i\<in>set preview. i < length (img_src p) \<longrightarrow>
            img_src (run [Change k [f1], Change k [f2],
                          Load (Suc (length (readers p))), Load (length (readers p))] p) ! i =
              Some (readAsDataURL_result f1) \<and>
            img_src (run [Change k [f1], Change k [f2],
                          Load (length (readers p)), Load (length (readers p))] p) ! i =
              Some (readAsDataURL_result f2))"
proof (intro conjI allI impI ballI)
  show "run (map (\<lambda>f. Change k [f]) fs) p =
      p\<lparr>readers := readers p @ map (\<lambda>f. \<lparr>reader_file = f, reader_preview = preview\<rparr>) fs\<rparr>"
    using assms by (rule change_run)
next
  fix q :: page and evs j i
  assume "j < length (readers (run evs q)) \<and>
          i \<in> set (reader_preview (readers (run evs q) ! j)) \<and>
          i < length (img_src (run evs q))"
  then show "img_src (run (evs @ [Load j]) q) ! i =
      Some (readAsDataURL_result (reader_file (readers (run evs q) ! j)))"
    using load_sets_src [of j "run evs q" i]
    by (simp add: run_append run_Cons run_Nil readAsDataURL_result_def)
next
  fix i
  assume i: "i \<in> set preview" "i < length (img_src p)"
  have two: "run [Change k [f1], Change k [f2]] p =
      p\<lparr>readers := readers p @ [\<lparr>reader_file = f1, reader_preview = preview\<rparr>,
                                 \<lparr>reader_file = f2, reader_preview = preview\<rparr>]\<rparr>"
    using change_run [OF assms, of "[f1, f2]"] by simp
  have split: "\<And>a b. run [Change k [f1], Change k [f2], a, b] p =
      run [a, b] (run [Change k [f1], Change k [f2]] p)"
    by (simp only: run_Cons run_Nil)
  show "img_src (run [Change k [f1], Change k [f2],
                      Load (Suc (length (readers p))), Load (length (readers p))] p) ! i =
      Some (readAsDataURL_result f1)"
    unfolding split two using i
    by (simp add: run_Cons run_Nil on_load_def Let_def nth_append
        set_src_nth length_set_src)
  show "img_src (run [Change k [f1], Change k [f2],
                      Load (length (readers p)), Load (length (readers p))] p) ! i =
      Some (readAsDataURL_result f2)"
    unfolding split two using i
    by (simp add: run_Cons run_Nil on_load_def Let_def nth_append
        set_src_nth length_set_src)
qed

theorem last_completed_read_wins_witness:
  "run [Change 0 [\<lparr>file_encoded = str ''image/png;base64,AAAA''\<rparr>],
        Change 0 [\<lparr>file_encoded = str ''image/png;base64,BBBB''\<rparr>]] preview_page =
     preview_page\<lparr>readers :=
       [\<lparr>reader_file = \<lparr>file_encoded = str ''image/png;base64,AAAA''\<rparr>, reader_preview = [0]\<rparr>,
        \<lparr>reader_file = \<lparr>file_encoded = str ''image/png;base64,BBBB''\<rparr>, reader_preview = [0]\<rparr>]\<rparr> \<and>
   img_src (run ([Change 0 [\<lparr>file_encoded = str ''image/png;base64,AAAA''\<rparr>]] @ [Load 0])
              preview_page) ! 0 =
     Some (str ''data:image/png;base64,AAAA'') \<and>
   img_src (run [Change 0 [\<lparr>file_encoded = str ''image/png;base64,AAAA''\<rparr>],
                 Change 0 [\<lparr>file_encoded = str ''image/png;base64,BBBB''\<rparr>],
                 Load 1, Load 0] preview_page) ! 0 =
     Some (str ''data:image/png;base64,AAAA'') \<and>
   img_src (run [Change 0 [\<lparr>file_encoded = str ''image/png;base64,AAAA''\<rparr>],
                 Change 0 [\<lparr>file_encoded = str ''image/png;base64,BBBB''\<rparr>],
                 Load 0, Load 0] preview_page) ! 0 =
     Some (str ''data:image/png;base64,BBBB'')"
proof -
  have pre: "installed preview_page" "0 < length (file_inputs preview_page)"
    "sibling_imgs (file_inputs preview_page ! 0) = [0]" "[0::nat] \<noteq> []"
    by (simp_all add: preview_page_def blank_page_def)
  have here: "length (readers preview_page) = 0" "length (img_src preview_page) = 1"
    "readers preview_page = []"
    by (simp_all add: preview_page_def blank_page_def)
  let ?a = "\<lparr>file_encoded = str ''image/png;base64,AAAA''\<rparr>"
  let ?b = "\<lparr>file_encoded = str ''image/png;base64,BBBB''\<rparr>"
  note all = last_completed_read_wins [OF pre, of "[?a, ?b]" ?a ?b]
  have selected: "run [Change 0 [?a], Change 0 [?b]] preview_page =
      preview_page\<lparr>readers := [\<lparr>reader_file = ?a, reader_preview = [0]\<rparr>,
                                   \<lparr>reader_file = ?b, reader_preview = [0]\<rparr>]\<rparr>"
    using all by (simp add: here)
  have one: "run [Change 0 [?a]] preview_page =
      preview_page\<lparr>readers := [\<lparr>reader_file = ?a, reader_preview = [0]\<rparr>]\<rparr>"
    using last_completed_read_wins [OF pre, of "[?a]" ?a ?b] by (simp add: here)
  have "\<forall>q evs j i. j < length (readers (run evs q)) \<and>
            i \<in> set (reader_preview (readers (run evs q) ! j)) \<and>
            i < length (img_src (run evs q)) \<longrightarrow>
          img_src (run (evs @ [Load j]) q) ! i =
            Some (readAsDataURL_result (reader_file (readers (run evs q) ! j)))"
    using all by blast
  then have "0 < length (readers (run [Change 0 [?a]] preview_page)) \<and>
            0 \<in> set (reader_preview (readers (run [Change 0 [?a]] preview_page) ! 0)) \<and>
            0 < length (img_src (run [Change 0 [?a]] preview_page)) \<longrightarrow>
          img_src (run ([Change 0 [?a]] @ [Load 0]) preview_page) ! 0 =
            Some (readAsDataURL_result (reader_file (readers (run [Change 0 [?a]] preview_page) ! 0)))"
    by blast
  then have completed: "img_src (run ([Change 0 [?a]] @ [Load 0]) preview_page) ! 0 =
      Some (str ''data:image/png;base64,AAAA'')"
    unfolding one by (simp add: here readAsDataURL_result_def str_append)
  show ?thesis
    using all selected completed
    by (simp add: here readAsDataURL_result_def str_append)
qed

section \<open>Deleting asks first\<close>

lemma contains_str_infix: "contains_str (pre @ sub @ post) sub"
proof (induction pre)
  case Nil
  have "take (length sub) (sub @ post) = sub" by simp
  then show ?case by (cases "sub @ post") auto
next
  case (Cons c pre)
  then show ?case by simp
qed

text \<open>
  Claim C4. On the submission of a form of the page whose action contains
  \<^verbatim>\<open>delete\<close>, the confirmation dialog is shown; when the user declines, the
  submission is cancelled and the page is unchanged; when the user accepts, the form is
  submitted.
\<close>

theorem delete_confirmation:
  assumes "installed p" and "f \<in> set (forms p)"
    and "form_action f = Some (pre @ str ''delete'' @ post)"
  shows "submit_form False f p = ([confirm_message], Cancelled, p) \<and>
         submit_form True f p = ([confirm_message], Submitted, p)"
  using assms
  by (simp add: submit_form_def delete_selector_def on_submit_def contains_str_infix)

theorem delete_confirmation_witness:
  "submit_form False \<lparr>form_action = Some (str ''/admin/menu/delete/7'')\<rparr>
     (blank_page\<lparr>installed := True,
                 forms := [\<lparr>form_action = Some (str ''/admin/menu/delete/7'')\<rparr>]\<rparr>) =
     ([confirm_message], Cancelled,
      blank_page\<lparr>installed := True,
                 forms := [\<lparr>form_action = Some (str ''/admin/menu/delete/7'')\<rparr>]\<rparr>) \<and>
   submit_form True \<lparr>form_action = Some (str ''/admin/menu/delete/7'')\<rparr>
     (blank_page\<lparr>installed := True,
                 forms := [\<lparr>form_action = Some (str ''/admin/menu/delete/7'')\<rparr>]\<rparr>) =
     ([confirm_message], Submitted,
      blank_page\<lparr>installed := True,
                 forms := [\<lparr>form_action = Some (str ''/admin/menu/delete/7'')\<rparr>]\<rparr>)"
  using delete_confirmation
    [of "blank_page\<lparr>installed := True,
                    forms := [\<lparr>form_action = Some (str ''/admin/menu/delete/7'')\<rparr>]\<rparr>"
        "\<lparr>form_action = Some (str ''/admin/menu/delete/7'')\<rparr>"
        "str ''/admin/menu/''" "str ''/7''"]
  by (simp add: str_append)

section \<open>The final price\<close>

subsection \<open>Evaluation of the number model\<close>

lemma floor_rat_numeral_div [simp]:
  "\<lfloor>(numeral a :: rat) / numeral b\<rfloor> = numeral a div numeral b"
  using floor_divide_of_int_eq [of "numeral a" "numeral b", where ?'a = rat] by simp

lemmas num_eval = to_double_def pow2_def pow10_def round_half_even_def binade.simps Let_def
  with_sign_def num_sub_def

lemmas parse_eval = parseFloat_def trimStart_def isWhiteSpace_def split_sign_def str_def
  isDigit_def digits_value_def exponent_part_def

lemma to_double_zero: "to_double s 0 = Finite s 0"
  by (simp add: num_eval)

lemma parse_abc: "parseFloat (str ''abc'') = NaN"
  by (simp add: parse_eval)

lemma parse_empty: "parseFloat [] = NaN"
  by (simp add: parse_eval)

lemma parse_0: "parseFloat (str ''0'') = Finite False 0"
  by (simp add: parse_eval to_double_zero)

lemma parse_10: "parseFloat (str ''10'') = Finite False 10"
  by (simp add: parse_eval num_eval)

lemma parse_100: "parseFloat (str ''100'') = Finite False 100"
  by (simp add: parse_eval num_eval)

lemma double_1e21:
  "to_double False 1000000000000000000000 = Finite False 1000000000000000000000"
  by (simp add: num_eval)

lemma double_2e21:
  "to_double False 2000000000000000000000 = Finite False 2000000000000000000000"
  by (simp add: num_eval)

lemma parse_1e21: "parseFloat (str ''1e21'') = Finite False 1000000000000000000000"
  by (simp add: parse_eval pow10_def double_1e21)

lemma digits_1e21: "dec_digits 1000000000000000000000 = str ''1000000000000000000000''"
  by (simp add: dec_digits.simps digit_def str_def)

lemma length_1e21: "length (dec_digits 1000000000000000000000) = 22"
  by (simp add: digits_1e21 str_def)

lemma shortest_1e21: "shortest 1000000000000000000000 22 1 = 1000000000000000000000"
  by (subst shortest.simps) (simp add: double_1e21 double_2e21)

lemma exponential_1e21: "exponential 1000000000000000000000 = str ''1e+21''"
  unfolding exponential_def length_1e21 shortest_1e21
  by (simp add: digits_1e21 str_def dec_digits.simps digit_def)

lemma fixed_1e21: "toFixed 2 (Finite False 1000000000000000000000) = Inr (str ''1e+21'')"
  by (simp add: toFixed_def exponential_1e21)

lemma finalPrice_1e21:
  "finalPrice (Some (str ''1e21'')) (Some (str ''0'')) = Finite False 1000000000000000000000"
  by (simp add: finalPrice_def val_string_def parse_1e21 parse_0 or_else_def to_double_zero
      num_sub_def with_sign_def double_1e21)

lemma discounted_100_10: "discounted (Finite False 100) (Finite False 10) = Finite False 90"
  by (simp add: discounted_def num_eval)

lemma two_decimals_9000: "two_decimals False 9000 = str ''90.00''"
  by (simp add: two_decimals_def dec_digits.simps digit_def str_def)

lemma two_decimals_0: "two_decimals False 0 = str ''0.00''"
  by (simp add: two_decimals_def dec_digits.simps digit_def str_def)

subsection \<open>The digits that toFixed writes\<close>

lemma dec_digits_nonempty: "dec_digits n \<noteq> []"
  by (subst dec_digits.simps) simp

lemma dec_digits_small: "n < 10 \<Longrightarrow> dec_digits n = [digit n]"
  by (subst dec_digits.simps) simp

lemma dec_digits_step: "10 \<le> n \<Longrightarrow> dec_digits n = dec_digits (n div 10) @ [digit (n mod 10)]"
  by (subst dec_digits.simps) simp

lemma point_small:
  assumes "n < 10"
  shows "take (length (replicate (3 - length (dec_digits n)) 0x30 @ dec_digits n) - 2)
           (replicate (3 - length (dec_digits n)) 0x30 @ dec_digits n) @ str ''.'' @
         drop (length (replicate (3 - length (dec_digits n)) 0x30 @ dec_digits n) - 2)
           (replicate (3 - length (dec_digits n)) 0x30 @ dec_digits n) =
         dec_digits (n div 100) @ str ''.'' @ [digit (n mod 100 div 10), digit (n mod 10)]"
proof -
  have a: "dec_digits n = [digit n]" using assms by (rule dec_digits_small)
  have b: "replicate (3 - length [digit n]) 0x30 @ [digit n] = [0x30, 0x30, digit n]"
    by (simp add: numeral_3_eq_3)
  have c: "dec_digits (n div 100) = [0x30]"
    using assms by (simp add: dec_digits_small digit_def)
  have d: "digit (n mod 100 div 10) = 0x30"
    using assms by (simp add: digit_def)
  show ?thesis
    using assms unfolding a b c d by simp
qed

lemma point_medium:
  assumes "10 \<le> n" and "n < 100"
  shows "take (length (replicate (3 - length (dec_digits n)) 0x30 @ dec_digits n) - 2)
           (replicate (3 - length (dec_digits n)) 0x30 @ dec_digits n) @ str ''.'' @
         drop (length (replicate (3 - length (dec_digits n)) 0x30 @ dec_digits n) - 2)
           (replicate (3 - length (dec_digits n)) 0x30 @ dec_digits n) =
         dec_digits (n div 100) @ str ''.'' @ [digit (n mod 100 div 10), digit (n mod 10)]"
proof -
  have "n div 10 < 10" using assms by simp
  then have a: "dec_digits n = [digit (n div 10), digit (n mod 10)]"
    using assms by (simp add: dec_digits_step [OF assms(1)] dec_digits_small)
  have b: "replicate (3 - length [digit (n div 10), digit (n mod 10)]) 0x30 @
             [digit (n div 10), digit (n mod 10)] =
           [0x30, digit (n div 10), digit (n mod 10)]"
    by simp
  have c: "dec_digits (n div 100) = [0x30]"
    using assms by (simp add: dec_digits_small digit_def)
  have d: "n mod 100 div 10 = n div 10"
    using assms by simp
  show ?thesis
    unfolding a b c d by simp
qed

lemma point_large:
  assumes "100 \<le> n"
  shows "take (length (replicate (3 - length (dec_digits n)) 0x30 @ dec_digits n) - 2)
           (replicate (3 - length (dec_digits n)) 0x30 @ dec_digits n) @ str ''.'' @
         drop (length (replicate (3 - length (dec_digits n)) 0x30 @ dec_digits n) - 2)
           (replicate (3 - length (dec_digits n)) 0x30 @ dec_digits n) =
         dec_digits (n div 100) @ str ''.'' @ [digit (n mod 100 div 10), digit (n mod 10)]"
proof -
  from assms have a: "10 \<le> n" and b: "10 \<le> n div 10" by simp_all
  have c: "n div 10 div 10 = n div 100" by (simp add: div_mult2_eq)
  have "n mod 100 = 10 * (n div 10 mod 10) + n mod 10"
    using mod_mult2_eq [of n 10 10] by simp
  then have d: "n mod 100 div 10 = n div 10 mod 10" by simp
  have ds: "dec_digits n = dec_digits (n div 100) @ [digit (n div 10 mod 10), digit (n mod 10)]"
    by (simp add: dec_digits_step [OF a] dec_digits_step [OF b] c)
  have len: "3 - length (dec_digits n) = 0"
    using dec_digits_nonempty [of "n div 100"]
    by (cases "dec_digits (n div 100)") (simp_all add: ds)
  show ?thesis
    unfolding len by (simp add: ds d)
qed

lemma toFixed_two_decimals:
  assumes "m < 10 ^ 21"
  shows "toFixed 2 (Finite s m) =
     Inr (two_decimals (s \<and> m \<noteq> 0) (nat \<lfloor>m * 100 + 1 / 2\<rfloor>))"
proof -
  define n where "n = nat \<lfloor>m * 100 + 1 / 2\<rfloor>"
  consider "n < 10" | "10 \<le> n" "n < 100" | "100 \<le> n" by linarith
  then have "take (length (replicate (3 - length (dec_digits n)) 0x30 @ dec_digits n) - 2)
           (replicate (3 - length (dec_digits n)) 0x30 @ dec_digits n) @ str ''.'' @
         drop (length (replicate (3 - length (dec_digits n)) 0x30 @ dec_digits n) - 2)
           (replicate (3 - length (dec_digits n)) 0x30 @ dec_digits n) =
         dec_digits (n div 100) @ str ''.'' @ [digit (n mod 100 div 10), digit (n mod 10)]"
    by cases (simp_all only: point_small point_medium point_large)
  with assms show ?thesis
    by (simp add: toFixed_def Let_def two_decimals_def n_def)
qed

subsection \<open>Zero for a falsy operand changes nothing that is written\<close>

lemma finalPrice_discounted:
  "finalPrice (Some a) (Some b) =
     discounted (or_else (parseFloat a) (Finite False 0)) (or_else (parseFloat b) (Finite False 0))"
  by (simp add: finalPrice_def discounted_def val_string_def Let_def)

lemma discounted_zero_price:
  "\<exists>u. discounted (Finite s 0) (Finite t n) = Finite u 0"
  by (auto simp: discounted_def num_sub_def to_double_zero with_sign_def)

lemma discounted_zero_discount:
  "m \<noteq> 0 \<Longrightarrow> discounted (Finite s m) (Finite t 0) = discounted (Finite s m) (Finite False 0)"
  by (simp add: discounted_def num_sub_def to_double_zero with_sign_def)

lemma toFixed_zero: "toFixed 2 (Finite u 0) = toFixed 2 (Finite False 0)"
  by (simp add: toFixed_def)

lemma toFixed_zero_price:
  "toFixed 2 (discounted (Finite s 0) (Finite t n)) = toFixed 2 (Finite False 0)"
proof -
  obtain u where "discounted (Finite s 0) (Finite t n) = Finite u 0"
    using discounted_zero_price by blast
  then show ?thesis by (simp add: toFixed_zero [of u])
qed

lemma or_else_unseen:
  assumes "P \<noteq> NaN" and "D \<noteq> NaN"
  shows "toFixed 2 (discounted (or_else P (Finite False 0)) (or_else D (Finite False 0))) =
         toFixed 2 (discounted P D)"
proof (cases P)
  case NaN
  with assms show ?thesis by simp
next
  case (Infinity s)
  show ?thesis
  proof (cases D)
    case NaN
    with assms show ?thesis by simp
  next
    case (Infinity t)
    with \<open>P = Infinity s\<close> show ?thesis by (simp add: or_else_def)
  next
    case (Finite t n)
    with \<open>P = Infinity s\<close> show ?thesis
      by (simp add: or_else_def discounted_def num_sub_def)
  qed
next
  case P: (Finite s m)
  show ?thesis
  proof (cases D)
    case NaN
    with assms show ?thesis by simp
  next
    case (Infinity t)
    with P show ?thesis by (simp add: or_else_def discounted_def num_sub_def)
  next
    case D: (Finite t n)
    show ?thesis
    proof (cases "m = 0")
      case True
      then show ?thesis
        by (simp add: P D or_else_def toFixed_zero_price)
    next
      case False
      then show ?thesis
        using discounted_zero_discount [of m s t]
        by (cases "n = 0") (simp_all add: P D or_else_def)
    qed
  qed
qed

text \<open>
  Claim C1, as amended. The page has both fields and the output field, and after the
  edit the fields hold strings that parse as numbers. When the double
  \<open>p - p * d / 100\<close> is finite and its magnitude is below \<open>10 ^ 21\<close>, the input event
  writes it into the output field rounded to the nearest hundredth (the larger magnitude
  of two), in fixed notation with exactly two digits after the point, and changes nothing
  else.
\<close>

theorem final_price_two_decimals:
  assumes "installed p" and "field_exists Price p" and "field_exists Discount p"
    and "final_price p \<noteq> None"
    and "price_in (edit fld v p) = Some a" and "discount_in (edit fld v p) = Some b"
    and "parseFloat a \<noteq> NaN" and "parseFloat b \<noteq> NaN"
    and "discounted (parseFloat a) (parseFloat b) = Finite s m" and "m < 10 ^ 21"
  shows "step (Input fld v) p =
     (edit fld v p)\<lparr>final_price :=
        Some (two_decimals (s \<and> m \<noteq> 0) (nat \<lfloor>m * 100 + 1 / 2\<rfloor>))\<rparr>"
proof -
  let ?e = "edit fld v p"
  have ex: "field_exists fld p" using assms(2,3) by (cases fld) simp_all
  have inst: "installed ?e" and fin: "final_price ?e = final_price p"
    using assms(1) by (cases fld; simp)+
  have "toFixed 2 (finalPrice (price_in ?e) (discount_in ?e)) =
      toFixed 2 (discounted (parseFloat a) (parseFloat b))"
    using assms(7,8) by (simp add: assms(5,6) finalPrice_discounted or_else_unseen)
  also have "\<dots> = Inr (two_decimals (s \<and> m \<noteq> 0) (nat \<lfloor>m * 100 + 1 / 2\<rfloor>))"
    using assms(10) by (simp add: assms(9) toFixed_two_decimals)
  finally have "on_input ?e =
      Inr (?e\<lparr>final_price :=
             Some (two_decimals (s \<and> m \<noteq> 0) (nat \<lfloor>m * 100 + 1 / 2\<rfloor>))\<rparr>)"
    using assms(4) by (auto simp: on_input_def fin)
  then show ?thesis
    using ex inst by (simp add: dispatch_input_def)
qed

theorem final_price_two_decimals_witness:
  "step (Input Discount (str ''10'')) price_page =
     price_page\<lparr>discount_in := Some (str ''10''), final_price := Some (str ''90.00'')\<rparr>"
  using final_price_two_decimals
    [of price_page Discount "str ''10''" "str ''100''" "str ''10''" False 90]
  by (simp add: price_page_def blank_page_def parse_100 parse_10 discounted_100_10
      two_decimals_9000)

text \<open>
  Claim C1 as stated fails: with the price \<^verbatim>\<open>1e21\<close> and the discount \<^verbatim>\<open>0\<close>, both of
  which parse as numbers, the output field receives \<^verbatim>\<open>1e+21\<close>, which has no decimal
  places.
\<close>

theorem large_price_in_exponent_notation:
  "step (Input Price (str ''1e21'')) price_page =
     price_page\<lparr>price_in := Some (str ''1e21''), final_price := Some (str ''1e+21'')\<rparr>"
  by (simp add: price_page_def blank_page_def dispatch_input_def on_input_def finalPrice_1e21
      fixed_1e21)

subsection \<open>A parsed number is a double\<close>

lemma pow2_powi: "pow2 e = 2 powi e"
  by (simp add: pow2_def power_int_def power_one_over)

lemma pow2_pos: "0 < pow2 e"
  by (simp add: pow2_powi)

lemma pow2_mono: "a \<le> b \<Longrightarrow> pow2 a \<le> pow2 b"
  by (simp add: pow2_powi power_int_increasing)

lemma pow2_div: "pow2 a / pow2 b = pow2 (a - b)"
  by (simp add: pow2_powi power_int_diff)

lemma pow2_int: "0 \<le> e \<Longrightarrow> pow2 e = of_int (2 ^ nat e)"
  by (simp add: pow2_def)

lemma binade_spec:
  "lo < hi \<Longrightarrow>
     lo \<le> binade m lo hi \<and> binade m lo hi < hi \<and>
     (binade m lo hi = lo \<or> pow2 (binade m lo hi) \<le> m) \<and>
     (binade m lo hi + 1 = hi \<or> m < pow2 (binade m lo hi + 1))"
proof (induction m lo hi rule: binade.induct)
  case (1 m lo hi)
  show ?case
  proof (cases "hi \<le> lo + 1")
    case True
    with "1.prems" show ?thesis by (simp add: binade.simps [of m lo hi])
  next
    case False
    define mid where "mid = (lo + hi) div 2"
    from False have mid: "lo < mid" "mid < hi" by (simp_all add: mid_def)
    show ?thesis
    proof (cases "pow2 mid \<le> m")
      case True
      have eq: "binade m lo hi = binade m mid hi"
        using False True by (simp add: binade.simps [of m lo hi] mid_def)
      have "mid \<le> binade m mid hi \<and> binade m mid hi < hi \<and>
          (binade m mid hi = mid \<or> pow2 (binade m mid hi) \<le> m) \<and>
          (binade m mid hi + 1 = hi \<or> m < pow2 (binade m mid hi + 1))"
        using "1.IH"(1) [OF False refl] True mid by (simp add: mid_def)
      with True mid show ?thesis
        unfolding eq by auto
    next
      case no: False
      have eq: "binade m lo hi = binade m lo mid"
        using False no by (simp add: binade.simps [of m lo hi] mid_def)
      have "lo \<le> binade m lo mid \<and> binade m lo mid < mid \<and>
          (binade m lo mid = lo \<or> pow2 (binade m lo mid) \<le> m) \<and>
          (binade m lo mid + 1 = mid \<or> m < pow2 (binade m lo mid + 1))"
        using "1.IH"(2) [OF False refl] no mid by (simp add: mid_def)
      with no mid show ?thesis
        unfolding eq by auto
    qed
  qed
qed

lemma round_half_even_int: "round_half_even (of_int k) = k"
  by (simp add: round_half_even_def)

lemma round_half_even_lower: "of_int k \<le> x \<Longrightarrow> k \<le> round_half_even x"
proof -
  assume "of_int k \<le> x"
  then have "k \<le> \<lfloor>x\<rfloor>" by (simp add: le_floor_iff)
  then show ?thesis by (simp add: round_half_even_def Let_def)
qed

lemma round_half_even_upper: "x \<le> of_int k \<Longrightarrow> round_half_even x \<le> k"
proof -
  assume le: "x \<le> of_int k"
  then have fl: "\<lfloor>x\<rfloor> \<le> k" by (simp add: floor_le_iff)
  show ?thesis
  proof (cases "x - of_int \<lfloor>x\<rfloor> < 1 / 2")
    case True
    with fl show ?thesis by (simp add: round_half_even_def Let_def)
  next
    case False
    have "\<lfloor>x\<rfloor> \<noteq> k"
    proof
      assume "\<lfloor>x\<rfloor> = k"
      with le have "x - of_int \<lfloor>x\<rfloor> \<le> 0" by simp
      with False show False by simp
    qed
    with fl have "\<lfloor>x\<rfloor> + 1 \<le> k" by simp
    with fl show ?thesis by (simp add: round_half_even_def Let_def)
  qed
qed

lemma to_double_fixed:
  assumes "to_double s m = Finite s' r"
  shows "to_double t r = Finite t r"
proof -
  define e where "e = binade m (- 1022) 1024"
  define q where "q = pow2 (e - 52)"
  define n where "n = round_half_even (m / q)"
  have r: "r = of_int n * q" and fin: "\<not> pow2 1024 \<le> r"
    using assms by (simp_all add: to_double_def Let_def e_def q_def n_def split: if_splits)
  have q: "0 < q" by (simp add: q_def pow2_pos)
  have be: "- 1022 \<le> e" "e < 1024" "e = - 1022 \<or> pow2 e \<le> m"
      "e + 1 = 1024 \<or> m < pow2 (e + 1)"
    using binade_spec [of "- 1022" 1024 m] by (simp_all add: e_def)
  have top: "pow2 (e + 1) = of_int (2 ^ 53) * q"
  proof -
    have "pow2 (e + 1) / q = pow2 53"
      by (simp add: q_def pow2_div)
    also have "\<dots> = of_int (2 ^ 53)" by (simp add: pow2_def)
    finally show ?thesis using q by (simp add: field_simps)
  qed
  have upper: "r \<le> pow2 (e + 1)"
  proof (cases "e + 1 = 1024")
    case True
    with fin show ?thesis by simp
  next
    case False
    with be(4) have "m < pow2 (e + 1)" by simp
    then have "m < of_int (2 ^ 53) * q" by (simp only: top)
    then have "m / q < of_int (2 ^ 53)"
      using q by (simp only: pos_divide_less_eq)
    then have "m / q \<le> of_int (2 ^ 53)" by (rule less_imp_le)
    then have "n \<le> 2 ^ 53" unfolding n_def by (rule round_half_even_upper)
    then have "(of_int n :: rat) \<le> of_int (2 ^ 53)" by (simp only: of_int_le_iff)
    then show ?thesis
      using q unfolding r top by (simp only: mult_le_cancel_right_pos)
  qed
  define e' where "e' = binade r (- 1022) 1024"
  define q' where "q' = pow2 (e' - 52)"
  have q': "0 < q'" by (simp add: q'_def pow2_pos)
  have be': "- 1022 \<le> e'" "e' < 1024" "e' = - 1022 \<or> pow2 e' \<le> r"
    using binade_spec [of "- 1022" 1024 r] by (simp_all add: e'_def)
  have "\<exists>k. r / q' = of_int k"
  proof (cases "e' \<le> e")
    case True
    have "r / q' = of_int n * (q / q')" by (simp add: r)
    also have "q / q' = pow2 (e - e')" by (simp add: q_def q'_def pow2_div)
    also have "\<dots> = of_int (2 ^ nat (e - e'))" using True by (simp add: pow2_int)
    finally have "r / q' = of_int (n * 2 ^ nat (e - e'))" by simp
    then show ?thesis by blast
  next
    case False
    with be(1) be'(3) have low: "pow2 e' \<le> r" by auto
    from False have "pow2 (e + 1) \<le> pow2 e'" by (intro pow2_mono) simp
    with upper low have "r = pow2 e'" by simp
    then have "r / q' = pow2 52" by (simp add: q'_def pow2_div)
    also have "\<dots> = of_int (2 ^ 52)" by (simp add: pow2_def)
    finally show ?thesis by blast
  qed
  then obtain k where k: "r / q' = of_int k" by blast
  then have "of_int (round_half_even (r / q')) * q' = r"
    using q' by (simp add: round_half_even_int field_simps)
  then show ?thesis
    using fin by (simp add: to_double_def Let_def e'_def [symmetric] q'_def [symmetric])
qed

lemma to_double_nonneg:
  assumes "0 \<le> m" and "to_double s m = Finite s' r"
  shows "0 \<le> r \<and> s' = s"
proof -
  define q where "q = pow2 (binade m (- 1022) 1024 - 52)"
  have q: "0 < q" by (simp add: q_def pow2_pos)
  have r: "r = of_int (round_half_even (m / q)) * q" and s: "s' = s"
    using assms(2) by (simp_all add: to_double_def Let_def q_def split: if_splits)
  have "of_int 0 \<le> m / q" using assms(1) q by simp
  then have "0 \<le> round_half_even (m / q)" by (rule round_half_even_lower)
  with q s show ?thesis by (simp add: r)
qed

lemma parseFloat_cases:
  "parseFloat a = NaN \<or> (\<exists>n. parseFloat a = Infinity n) \<or>
   (\<exists>n mv. 0 \<le> mv \<and> parseFloat a = to_double n mv)"
proof -
  define Q where "Q = (\<lambda>x. x = NaN \<or> (\<exists>n. x = Infinity n) \<or>
    (\<exists>n mv. 0 \<le> mv \<and> x = to_double n mv))"
  have nonneg: "\<And>k e. 0 \<le> rat_of_nat k * pow10 e" by (simp add: pow10_def)
  have "\<And>n mv. 0 \<le> mv \<Longrightarrow> Q (to_double n mv)" and "Q NaN" and "\<And>n. Q (Infinity n)"
    by (auto simp: Q_def)
  then have "Q (parseFloat a)"
    unfolding parseFloat_def Let_def
    by (simp add: nonneg split: prod.splits list.splits)
  then show ?thesis by (simp add: Q_def)
qed

lemma parseFloat_finite:
  assumes "parseFloat a = Finite s m"
  shows "0 \<le> m \<and> to_double t m = Finite t m"
proof -
  from parseFloat_cases [of a] assms obtain n mv
    where mv: "0 \<le> mv" and eq: "to_double n mv = Finite s m" by auto
  from to_double_nonneg [OF mv eq] to_double_fixed [OF eq] show ?thesis by simp
qed

subsection \<open>An operand that is not a number\<close>

lemma discount_unparsable_keeps_price:
  assumes "parseFloat b = NaN" and "parseFloat a = Finite s m" and "m \<noteq> 0"
  shows "finalPrice (Some a) (Some b) = Finite s m"
proof -
  from parseFloat_finite [OF assms(2)] have pos: "0 \<le> m"
    and again: "\<And>t. to_double t m = Finite t m"
    by simp_all
  from pos assms(3) have "0 < m" by simp
  then show ?thesis
    by (cases s)
       (simp_all add: finalPrice_def val_string_def assms(1,2) or_else_def to_double_zero
          num_sub_def Let_def again with_sign_def)
qed

lemma discount_unparsable_writes_price:
  assumes "parseFloat b = NaN" and "parseFloat a = Finite s m"
  shows "toFixed 2 (finalPrice (Some a) (Some b)) = toFixed 2 (Finite s m)"
proof (cases "m = 0")
  case True
  then show ?thesis
    using toFixed_zero_price [of False False 0]
    by (simp add: finalPrice_discounted assms or_else_def toFixed_zero [of s])
next
  case False
  then show ?thesis
    by (simp add: discount_unparsable_keeps_price [OF assms])
qed

lemma price_unparsable_gives_zero:
  assumes "parseFloat a = NaN" and "parseFloat b \<noteq> Infinity False"
    and "parseFloat b \<noteq> Infinity True"
  shows "toFixed 2 (finalPrice (Some a) (Some b)) = Inr (str ''0.00'')"
proof -
  have zero: "toFixed 2 (Finite False 0) = Inr (str ''0.00'')"
    using toFixed_two_decimals [of 0 False] by (simp add: two_decimals_0)
  show ?thesis
  proof (cases "parseFloat b")
    case NaN
    then show ?thesis
      by (simp add: finalPrice_discounted assms(1) or_else_def toFixed_zero_price zero)
  next
    case (Infinity u)
    with assms(2,3) show ?thesis by (cases u) simp_all
  next
    case (Finite t n)
    then show ?thesis
      by (simp add: finalPrice_discounted assms(1) or_else_def toFixed_zero_price zero)
  qed
qed

lemma two_decimals_10000: "two_decimals False 10000 = str ''100.00''"
  by (simp add: two_decimals_def dec_digits.simps digit_def str_def)

text \<open>
  Claim C2. A price or a discount that does not parse as a number, the empty string among
  them, counts as zero: it gives the same final price as the string \<^verbatim>\<open>0\<close> in its
  place; with such a discount the final price is the price itself, and what is written
  is the price to two decimals; with such a price
  \<^verbatim>\<open>0.00\<close> is written, whatever the finite discount. The handler raises no error on any
  page. The price \<^verbatim>\<open>abc\<close> with the discount \<^verbatim>\<open>10\<close> writes \<^verbatim>\<open>0.00\<close>, and the price
  \<^verbatim>\<open>100\<close> with an empty discount writes \<^verbatim>\<open>100.00\<close>.
\<close>

theorem invalid_input_is_zero:
  "(parseFloat a = NaN \<longrightarrow> finalPrice (Some a) dv = finalPrice (Some (str ''0'')) dv) \<and>
   (parseFloat b = NaN \<longrightarrow> finalPrice pv (Some b) = finalPrice pv (Some (str ''0''))) \<and>
   (parseFloat b = NaN \<and> parseFloat a = Finite s m \<and> m \<noteq> 0 \<longrightarrow>
      finalPrice (Some a) (Some b) = Finite s m) \<and>
   (parseFloat b = NaN \<and> parseFloat a = Finite s m \<longrightarrow>
      toFixed 2 (finalPrice (Some a) (Some b)) = toFixed 2 (Finite s m)) \<and>
   (parseFloat a = NaN \<and> parseFloat b \<noteq> Infinity False \<and> parseFloat b \<noteq> Infinity True \<longrightarrow>
      toFixed 2 (finalPrice (Some a) (Some b)) = Inr (str ''0.00'')) \<and>
   parseFloat [] = NaN \<and>
   (\<exists>q. on_input p = Inr q) \<and>
   on_input (price_page\<lparr>price_in := Some (str ''abc''), discount_in := Some (str ''10'')\<rparr>) =
     Inr (price_page\<lparr>price_in := Some (str ''abc''), discount_in := Some (str ''10''),
                      final_price := Some (str ''0.00'')\<rparr>) \<and>
   on_input (price_page\<lparr>discount_in := Some []\<rparr>) =
     Inr (price_page\<lparr>discount_in := Some [], final_price := Some (str ''100.00'')\<rparr>)"
proof (intro conjI impI)
  assume "parseFloat a = NaN"
  then show "finalPrice (Some a) dv = finalPrice (Some (str ''0'')) dv"
    by (simp add: finalPrice_def val_string_def or_else_def parse_0)
next
  assume "parseFloat b = NaN"
  then show "finalPrice pv (Some b) = finalPrice pv (Some (str ''0''))"
    by (simp add: finalPrice_def val_string_def or_else_def parse_0)
next
  assume "parseFloat b = NaN \<and> parseFloat a = Finite s m \<and> m \<noteq> 0"
  then show "finalPrice (Some a) (Some b) = Finite s m"
    by (simp add: discount_unparsable_keeps_price)
next
  assume "parseFloat b = NaN \<and> parseFloat a = Finite s m"
  then show "toFixed 2 (finalPrice (Some a) (Some b)) = toFixed 2 (Finite s m)"
    by (simp add: discount_unparsable_writes_price)
next
  assume "parseFloat a = NaN \<and> parseFloat b \<noteq> Infinity False \<and> parseFloat b \<noteq> Infinity True"
  then show "toFixed 2 (finalPrice (Some a) (Some b)) = Inr (str ''0.00'')"
    by (simp add: price_unparsable_gives_zero)
next
  show "parseFloat [] = NaN" by (rule parse_empty)
next
  show "\<exists>q. on_input p = Inr q"
    by (simp add: on_input_def toFixed_def)
next
  have "finalPrice (Some (str ''abc'')) (Some (str ''10'')) = Finite False 0"
    by (simp add: finalPrice_def val_string_def parse_abc parse_10 or_else_def to_double_zero
        num_sub_def with_sign_def)
  moreover have "toFixed 2 (Finite False 0) = Inr (str ''0.00'')"
    using toFixed_two_decimals [of 0 False] by (simp add: two_decimals_0)
  ultimately show "on_input (price_page\<lparr>price_in := Some (str ''abc''),
        discount_in := Some (str ''10'')\<rparr>) =
      Inr (price_page\<lparr>price_in := Some (str ''abc''), discount_in := Some (str ''10''),
                       final_price := Some (str ''0.00'')\<rparr>)"
    by (simp add: on_input_def price_page_def blank_page_def)
next
  have "finalPrice (Some (str ''100'')) (Some []) = Finite False 100"
    using discount_unparsable_keeps_price [of "[]" "str ''100''" False 100]
    by (simp add: parse_empty parse_100)
  moreover have "toFixed 2 (Finite False 100) = Inr (str ''100.00'')"
    using toFixed_two_decimals [of 100 False] by (simp add: two_decimals_10000)
  ultimately show "on_input (price_page\<lparr>discount_in := Some []\<rparr>) =
      Inr (price_page\<lparr>discount_in := Some [], final_price := Some (str ''100.00'')\<rparr>)"
    by (simp add: on_input_def price_page_def blank_page_def)
qed

theorem invalid_input_is_zero_witness:
  "finalPrice (Some (str ''100'')) (Some []) = Finite False 100 \<and>
   finalPrice (Some (str ''abc'')) (Some (str ''10'')) = Finite False 0 \<and>
   toFixed 2 (finalPrice (Some (str ''abc'')) (Some (str ''10''))) = Inr (str ''0.00'')"
proof -
  have zero_ten: "finalPrice (Some (str ''0'')) (Some (str ''10'')) = Finite False 0"
    by (simp add: finalPrice_def val_string_def parse_0 parse_10 or_else_def to_double_zero
        num_sub_def with_sign_def)
  have "finalPrice (Some (str ''100'')) (Some []) = Finite False 100"
    using invalid_input_is_zero [of "str ''100''" "Some []" "[]" "Some (str ''100'')" False 100,
        THEN conjunct2, THEN conjunct2, THEN conjunct1]
    by (simp add: parse_empty parse_100)
  moreover have "finalPrice (Some (str ''abc'')) (Some (str ''10'')) = Finite False 0"
    using invalid_input_is_zero [of "str ''abc''" "Some (str ''10'')", THEN conjunct1]
    by (simp add: parse_abc zero_ten)
  moreover have "toFixed 2 (finalPrice (Some (str ''abc'')) (Some (str ''10''))) =
      Inr (str ''0.00'')"
    using invalid_input_is_zero [of "str ''abc''" _ "str ''10''",
        THEN conjunct2, THEN conjunct2, THEN conjunct2, THEN conjunct2, THEN conjunct1]
    by (simp add: parse_abc parse_10)
  ultimately show ?thesis by simp
qed

end
